theory Spec2Isabelle
  imports Main
begin

section \<open>UNet2DConditionModel: skip-stack discipline and block wiring\<close>

text \<open>
  A shallow embedding of \<^verbatim>\<open>tensorrt_llm/models/unet/unet_2d_condition.py\<close>.
  Tensors are values of an arbitrary type \<open>'t\<close>: the file only moves them around.
  The layers and tensor functions it imports (\<^verbatim>\<open>Conv2d\<close>, \<^verbatim>\<open>GroupNorm\<close>,
  \<^verbatim>\<open>Timesteps\<close>, \<^verbatim>\<open>TimestepEmbedding\<close>, \<^verbatim>\<open>concat\<close>, \<^verbatim>\<open>cast\<close>, \<^verbatim>\<open>silu\<close>)
  and the blocks of \<^verbatim>\<open>unet_2d_blocks\<close> are parameters. A block call may raise; the
  exception is carried by the name of its class and propagates out of \<^verbatim>\<open>forward\<close> and
  \<^verbatim>\<open>__init__\<close> unchanged.
\<close>

subsection \<open>Exceptions\<close>

type_synonym exn = string

text \<open>
  \<open>AssertionError\<close>, \<open>IndexError\<close> and \<open>AttributeError\<close> are raised by the statements
  of the file itself (the \<^verbatim>\<open>assert\<close> of \<^verbatim>\<open>forward\<close>, a subscript out of range, a read of an
  attribute that \<^verbatim>\<open>__init__\<close> did not set); \<open>Raised e\<close> is an exception that left a
  collaborator.
\<close>

datatype error = AssertionError | IndexError | AttributeError | Raised exn

definition propagate :: "exn + 'a \<Rightarrow> error + 'a" where
  "propagate r = (case r of Inl e \<Rightarrow> Inl (Raised e) | Inr x \<Rightarrow> Inr x)"

subsection \<open>Python subscripts and slices\<close>

text \<open>\<^verbatim>\<open>xs[i]\<close> for an index \<open>i \<ge> 0\<close>.\<close>

definition getitem :: "'a list \<Rightarrow> nat \<Rightarrow> error + 'a" where
  "getitem xs i = (if i < length xs then Inr (xs ! i) else Inl IndexError)"

text \<open>\<^verbatim>\<open>xs[-1]\<close>.\<close>

definition getitem_last :: "'a list \<Rightarrow> error + 'a" where
  "getitem_last xs = (if xs = [] then Inl IndexError else Inr (last xs))"

text \<open>
  \<^verbatim>\<open>xs[-n:]\<close> and \<^verbatim>\<open>xs[:-n]\<close> for a length \<open>n \<ge> 0\<close>. A slice never raises: when
  \<open>n\<close> exceeds the length, the first is all of \<open>xs\<close> and the second is empty. For
  \<open>n = 0\<close> the bound \<^verbatim>\<open>-0\<close> is \<^verbatim>\<open>0\<close>, so \<^verbatim>\<open>xs[-0:]\<close> is all of \<open>xs\<close> and \<^verbatim>\<open>xs[:-0]\<close>
  is empty.
\<close>

definition slice_last :: "nat \<Rightarrow> 'a list \<Rightarrow> 'a list" where
  "slice_last n xs = (if n = 0 then xs else drop (length xs - n) xs)"

definition slice_butlast :: "nat \<Rightarrow> 'a list \<Rightarrow> 'a list" where
  "slice_butlast n xs = (if n = 0 then [] else take (length xs - n) xs)"

subsection \<open>Blocks and the model object\<close>

text \<open>
  What \<^verbatim>\<open>forward\<close> reads of a block: whether it has a non-\<^verbatim>\<open>None\<close> attribute
  \<^verbatim>\<open>attentions\<close>, for an up block \<^verbatim>\<open>len(block.resnets)\<close>, and its call. A down block is
  called with \<open>hidden_states\<close>, \<open>temb\<close> and, when it has attentions,
  \<open>encoder_hidden_states\<close>; it returns the new sample and its residual samples. An up
  block also takes \<open>res_hidden_states_tuple\<close>.
\<close>

record 't down_block =
  db_attentions :: bool
  db_call :: "'t \<Rightarrow> 't \<Rightarrow> 't option \<Rightarrow> exn + ('t \<times> 't list)"

record 't up_block =
  ub_resnets :: nat
  ub_attentions :: bool
  ub_call :: "'t \<Rightarrow> 't \<Rightarrow> 't list \<Rightarrow> 't option \<Rightarrow> exn + 't"

text \<open>The tensor functions \<^verbatim>\<open>forward\<close> uses besides the layers of the model.\<close>

record 't functional =
  view_flat :: "'t \<Rightarrow> 't"
  view_rows_of :: "'t \<Rightarrow> 't \<Rightarrow> 't"
  concat_dim1 :: "'t list \<Rightarrow> 't"
  cast_like :: "'t \<Rightarrow> 't \<Rightarrow> 't"
  tensor_add :: "'t \<Rightarrow> 't \<Rightarrow> 't"

text \<open>
  The attributes of \<^verbatim>\<open>self\<close>. \<^verbatim>\<open>add_time_proj\<close> and \<^verbatim>\<open>add_embedding\<close> exist only when
  the model was built with \<^verbatim>\<open>addition_embed_type == "text_time"\<close>.
\<close>

record 't unet =
  self_sample_size :: "int option"
  self_addition_embed_type :: "string option"
  self_conv_in :: "'t \<Rightarrow> 't"
  self_time_proj :: "'t \<Rightarrow> 't"
  self_time_embedding :: "'t \<Rightarrow> 't"
  self_add_time_proj :: "('t \<Rightarrow> 't) option"
  self_add_embedding :: "('t \<Rightarrow> 't) option"
  self_down_blocks :: "'t down_block list"
  self_mid_block :: "'t \<Rightarrow> 't \<Rightarrow> 't \<Rightarrow> exn + 't"
  self_up_blocks :: "'t up_block list"
  self_conv_norm_out :: "'t \<Rightarrow> 't"
  self_conv_act :: "'t \<Rightarrow> 't"
  self_conv_out :: "'t \<Rightarrow> 't"

subsection \<open>forward\<close>

text \<open>
  Lines 190 to 202: the timestep embedding and, in \<^verbatim>\<open>text_time\<close> mode, the auxiliary
  embedding added to it.
\<close>

definition forward_emb ::
  "'t functional \<Rightarrow> 't unet \<Rightarrow> 't \<Rightarrow> 't option \<Rightarrow> 't option \<Rightarrow> error + 't" where
  "forward_emb F m timesteps text_embeds time_ids =
     (let t_emb = self_time_proj m timesteps;
          emb = self_time_embedding m t_emb
      in if self_addition_embed_type m = Some ''text_time'' then
           (case (text_embeds, time_ids) of
              (Some te, Some ti) \<Rightarrow>
                (case self_add_time_proj m of
                   None \<Rightarrow> Inl AttributeError
                 | Some add_time_proj \<Rightarrow>
                     (let time_embeds = add_time_proj (view_flat F ti);
                          time_embeds = view_rows_of F time_embeds te;
                          add_embeds = concat_dim1 F [te, time_embeds];
                          add_embeds = cast_like F add_embeds emb
                      in case self_add_embedding m of
                           None \<Rightarrow> Inl AttributeError
                         | Some add_embedding \<Rightarrow>
                             Inr (tensor_add F emb (add_embedding add_embeds))))
            | _ \<Rightarrow> Inl AssertionError)
         else Inr emb)"

text \<open>
  Lines 207 to 220: the loop over \<^verbatim>\<open>self.down_blocks\<close>, on the pair of the sample and
  \<^verbatim>\<open>down_block_res_samples\<close>.
\<close>

fun down_path ::
  "'t down_block list \<Rightarrow> 't \<Rightarrow> 't \<Rightarrow> 't \<times> 't list \<Rightarrow> error + ('t \<times> 't list)" where
  "down_path [] emb enc (sample, down_block_res_samples) =
     Inr (sample, down_block_res_samples)"
| "down_path (b # bs) emb enc (sample, down_block_res_samples) =
     (case propagate (db_call b sample emb (if db_attentions b then Some enc else None)) of
        Inl e \<Rightarrow> Inl e
      | Inr (sample', res_samples) \<Rightarrow>
          down_path bs emb enc (sample', down_block_res_samples @ res_samples))"

text \<open>
  Lines 226 to 243: the loop over \<^verbatim>\<open>self.up_blocks\<close>. Each round slices
  \<^verbatim>\<open>len(upsample_block.resnets)\<close> tensors off the end of \<^verbatim>\<open>down_block_res_samples\<close>
  and calls the block with them.
\<close>

fun up_path ::
  "'t up_block list \<Rightarrow> 't \<Rightarrow> 't \<Rightarrow> 't \<times> 't list \<Rightarrow> error + ('t \<times> 't list)" where
  "up_path [] emb enc (sample, down_block_res_samples) =
     Inr (sample, down_block_res_samples)"
| "up_path (b # bs) emb enc (sample, down_block_res_samples) =
     (let res_samples = slice_last (ub_resnets b) down_block_res_samples;
          down_block_res_samples = slice_butlast (ub_resnets b) down_block_res_samples
      in case propagate
                (ub_call b sample emb res_samples (if ub_attentions b then Some enc else None)) of
           Inl e \<Rightarrow> Inl e
         | Inr sample' \<Rightarrow> up_path bs emb enc (sample', down_block_res_samples))"

text \<open>
  Lines 190 to 220: \<^verbatim>\<open>forward\<close> up to the end of the down path, returning \<open>emb\<close>, the
  sample and \<^verbatim>\<open>down_block_res_samples\<close>.
\<close>

definition forward_down ::
  "'t functional \<Rightarrow> 't unet \<Rightarrow> 't \<Rightarrow> 't \<Rightarrow> 't \<Rightarrow> 't option \<Rightarrow> 't option
     \<Rightarrow> error + ('t \<times> 't \<times> 't list)" where
  "forward_down F m sample timesteps encoder_hidden_states text_embeds time_ids =
     (case forward_emb F m timesteps text_embeds time_ids of
        Inl e \<Rightarrow> Inl e
      | Inr emb \<Rightarrow>
          (let sample = self_conv_in m sample
           in case down_path (self_down_blocks m) emb encoder_hidden_states (sample, [sample]) of
                Inl e \<Rightarrow> Inl e
              | Inr (sample, down_block_res_samples) \<Rightarrow>
                  Inr (emb, sample, down_block_res_samples)))"

text \<open>
  Lines 190 to 243: \<^verbatim>\<open>forward\<close> up to the end of the up path, returning the sample and
  what is left of \<^verbatim>\<open>down_block_res_samples\<close>.
\<close>

definition forward_skip ::
  "'t functional \<Rightarrow> 't unet \<Rightarrow> 't \<Rightarrow> 't \<Rightarrow> 't \<Rightarrow> 't option \<Rightarrow> 't option
     \<Rightarrow> error + ('t \<times> 't list)" where
  "forward_skip F m sample timesteps encoder_hidden_states text_embeds time_ids =
     (case forward_down F m sample timesteps encoder_hidden_states text_embeds time_ids of
        Inl e \<Rightarrow> Inl e
      | Inr (emb, sample, down_block_res_samples) \<Rightarrow>
          (case propagate (self_mid_block m sample emb encoder_hidden_states) of
             Inl e \<Rightarrow> Inl e
           | Inr sample \<Rightarrow>
               up_path (self_up_blocks m) emb encoder_hidden_states
                 (sample, down_block_res_samples)))"

text \<open>Lines 245 to 249 finish \<^verbatim>\<open>forward\<close>.\<close>

definition forward ::
  "'t functional \<Rightarrow> 't unet \<Rightarrow> 't \<Rightarrow> 't \<Rightarrow> 't \<Rightarrow> 't option \<Rightarrow> 't option \<Rightarrow> error + 't" where
  "forward F m sample timesteps encoder_hidden_states text_embeds time_ids =
     (case forward_skip F m sample timesteps encoder_hidden_states text_embeds time_ids of
        Inl e \<Rightarrow> Inl e
      | Inr (sample, down_block_res_samples) \<Rightarrow>
          Inr (self_conv_out m (self_conv_act m (self_conv_norm_out m sample))))"

subsection \<open>The arguments of the constructor\<close>

text \<open>
  \<^verbatim>\<open>attention_head_dim\<close> and \<^verbatim>\<open>transformer_layers_per_block\<close> are an \<^verbatim>\<open>int\<close> or a
  sequence of them.
\<close>

datatype per_stage = Scalar int | Sequence "int list"

text \<open>
  The parameters of \<^verbatim>\<open>__init__\<close>. The floating-point ones (\<^verbatim>\<open>norm_eps\<close>,
  \<^verbatim>\<open>mid_block_scale_factor\<close>) and \<^verbatim>\<open>dtype\<close> are handed to the layers as they are and
  are left out; \<^verbatim>\<open>center_input_sample\<close> is never read.
\<close>

record config =
  sample_size :: "int option"
  in_channels :: int
  out_channels :: int
  flip_sin_to_cos :: bool
  freq_shift :: int
  down_block_types :: "string list"
  up_block_types :: "string list"
  block_out_channels :: "int list"
  layers_per_block :: int
  downsample_padding :: int
  act_fn :: string
  norm_num_groups :: int
  cross_attention_dim :: int
  transformer_layers_per_block :: per_stage
  attention_head_dim :: per_stage
  use_linear_projection :: bool
  addition_embed_type :: "string option"
  addition_time_embed_dim :: "int option"
  projection_class_embeddings_input_dim :: "int option"

text \<open>The keyword arguments of \<^verbatim>\<open>get_down_block\<close>, \<^verbatim>\<open>UNetMidBlock2DCrossAttn\<close> and
  \<^verbatim>\<open>get_up_block\<close>, in the order the calls write them.\<close>

record down_kwargs =
  dk_block_type :: string
  dk_num_layers :: int
  dk_transformer_layers_per_block :: int
  dk_in_channels :: int
  dk_out_channels :: int
  dk_temb_channels :: int
  dk_add_downsample :: bool
  dk_resnet_act_fn :: string
  dk_cross_attention_dim :: int
  dk_attn_num_head_channels :: int
  dk_downsample_padding :: int
  dk_use_linear_projection :: bool

record mid_kwargs =
  mk_in_channels :: int
  mk_temb_channels :: int
  mk_resnet_act_fn :: string
  mk_transformer_layers_per_block :: int
  mk_resnet_time_scale_shift :: string
  mk_cross_attention_dim :: int
  mk_attn_num_head_channels :: int
  mk_resnet_groups :: int
  mk_use_linear_projection :: bool

record up_kwargs =
  uk_block_type :: string
  uk_num_layers :: int
  uk_transformer_layers_per_block :: int
  uk_in_channels :: int
  uk_out_channels :: int
  uk_prev_output_channel :: int
  uk_temb_channels :: int
  uk_add_upsample :: bool
  uk_resnet_act_fn :: string
  uk_cross_attention_dim :: int
  uk_attn_num_head_channels :: int
  uk_use_linear_projection :: bool

subsection \<open>The constructor\<close>

text \<open>
  Lines 91 to 96: \<^verbatim>\<open>if isinstance(x, int): x = (x, ) * len(down_block_types)\<close>.
\<close>

definition broadcast :: "per_stage \<Rightarrow> nat \<Rightarrow> int list" where
  "broadcast x n = (case x of Scalar k \<Rightarrow> replicate n k | Sequence xs \<Rightarrow> xs)"

text \<open>
  Lines 99 to 120, the loop \<^verbatim>\<open>for i, down_block_type in enumerate(down_block_types)\<close>.
  \<open>tlpb\<close> and \<open>ahd\<close> are \<^verbatim>\<open>transformer_layers_per_block\<close> and \<^verbatim>\<open>attention_head_dim\<close> after
  lines 91 to 96, \<open>ted\<close> is \<^verbatim>\<open>time_embed_dim\<close>, \<open>gd\<close> is \<^verbatim>\<open>get_down_block\<close>; \<open>i\<close> and
  \<open>output_channel\<close> are the loop's variables on entry to a round.
\<close>

fun down_blocks_loop ::
  "config \<Rightarrow> int list \<Rightarrow> int list \<Rightarrow> int \<Rightarrow> (down_kwargs \<Rightarrow> exn + 'd)
     \<Rightarrow> nat \<Rightarrow> int \<Rightarrow> string list \<Rightarrow> error + 'd list" where
  "down_blocks_loop c tlpb ahd ted gd i output_channel [] = Inr []"
| "down_blocks_loop c tlpb ahd ted gd i output_channel (down_block_type # rest) =
     (let input_channel = output_channel
      in case getitem (block_out_channels c) i of
           Inl e \<Rightarrow> Inl e
         | Inr output_channel \<Rightarrow>
      (let is_final_block = (int i = int (length (block_out_channels c)) - 1)
       in case getitem tlpb i of
            Inl e \<Rightarrow> Inl e
          | Inr tlpb_i \<Rightarrow>
       (case getitem ahd i of
          Inl e \<Rightarrow> Inl e
        | Inr ahd_i \<Rightarrow>
       (case propagate (gd \<lparr>
                 dk_block_type = down_block_type,
                 dk_num_layers = layers_per_block c,
                 dk_transformer_layers_per_block = tlpb_i,
                 dk_in_channels = input_channel,
                 dk_out_channels = output_channel,
                 dk_temb_channels = ted,
                 dk_add_downsample = (\<not> is_final_block),
                 dk_resnet_act_fn = act_fn c,
                 dk_cross_attention_dim = cross_attention_dim c,
                 dk_attn_num_head_channels = ahd_i,
                 dk_downsample_padding = downsample_padding c,
                 dk_use_linear_projection = use_linear_projection c\<rparr>) of
          Inl e \<Rightarrow> Inl e
        | Inr down_block \<Rightarrow>
       (case down_blocks_loop c tlpb ahd ted gd (Suc i) output_channel rest of
          Inl e \<Rightarrow> Inl e
        | Inr down_blocks \<Rightarrow> Inr (down_block # down_blocks))))))"

text \<open>
  Lines 143 to 171, the loop \<^verbatim>\<open>for i, up_block_type in enumerate(up_block_types)\<close>, over
  the reversed lists of lines 138 to 141; \<open>gu\<close> is \<^verbatim>\<open>get_up_block\<close>.
\<close>

fun up_blocks_loop ::
  "config \<Rightarrow> int list \<Rightarrow> int list \<Rightarrow> int list \<Rightarrow> int \<Rightarrow> (up_kwargs \<Rightarrow> exn + 'u)
     \<Rightarrow> nat \<Rightarrow> int \<Rightarrow> string list \<Rightarrow> error + 'u list" where
  "up_blocks_loop c rboc rtlpb rahd ted gu i output_channel [] = Inr []"
| "up_blocks_loop c rboc rtlpb rahd ted gu i output_channel (up_block_type # rest) =
     (let prev_output_channel = output_channel
      in case getitem rboc i of
           Inl e \<Rightarrow> Inl e
         | Inr output_channel \<Rightarrow>
      (case getitem rboc (nat (min (int i + 1) (int (length (block_out_channels c)) - 1))) of
         Inl e \<Rightarrow> Inl e
       | Inr input_channel \<Rightarrow>
      (let is_final_block = (int i = int (length (block_out_channels c)) - 1)
       in case getitem rtlpb i of
            Inl e \<Rightarrow> Inl e
          | Inr rtlpb_i \<Rightarrow>
       (case getitem rahd i of
          Inl e \<Rightarrow> Inl e
        | Inr rahd_i \<Rightarrow>
       (case propagate (gu \<lparr>
                 uk_block_type = up_block_type,
                 uk_num_layers = layers_per_block c + 1,
                 uk_transformer_layers_per_block = rtlpb_i,
                 uk_in_channels = input_channel,
                 uk_out_channels = output_channel,
                 uk_prev_output_channel = prev_output_channel,
                 uk_temb_channels = ted,
                 uk_add_upsample = (\<not> is_final_block),
                 uk_resnet_act_fn = act_fn c,
                 uk_cross_attention_dim = cross_attention_dim c,
                 uk_attn_num_head_channels = rahd_i,
                 uk_use_linear_projection = use_linear_projection c\<rparr>) of
          Inl e \<Rightarrow> Inl e
        | Inr up_block \<Rightarrow>
       (case up_blocks_loop c rboc rtlpb rahd ted gu (Suc i) output_channel rest of
          Inl e \<Rightarrow> Inl e
        | Inr up_blocks \<Rightarrow> Inr (up_block # up_blocks)))))))"

text \<open>
  Lines 88 to 171: the three groups of blocks, built by the factories \<open>gd\<close>, \<open>gm\<close>
  (\<^verbatim>\<open>UNetMidBlock2DCrossAttn\<close>) and \<open>gu\<close>.
\<close>

definition init_blocks ::
  "config \<Rightarrow> int \<Rightarrow> (down_kwargs \<Rightarrow> exn + 'd) \<Rightarrow> (mid_kwargs \<Rightarrow> exn + 'm)
     \<Rightarrow> (up_kwargs \<Rightarrow> exn + 'u) \<Rightarrow> error + ('d list \<times> 'm \<times> 'u list)" where
  "init_blocks c ted gd gm gu =
     (let ahd = broadcast (attention_head_dim c) (length (down_block_types c));
          tlpb = broadcast (transformer_layers_per_block c) (length (down_block_types c))
      in case getitem (block_out_channels c) 0 of
           Inl e \<Rightarrow> Inl e
         | Inr output_channel \<Rightarrow>
      (case down_blocks_loop c tlpb ahd ted gd 0 output_channel (down_block_types c) of
         Inl e \<Rightarrow> Inl e
       | Inr down_blocks \<Rightarrow>
      (case getitem_last (block_out_channels c) of
         Inl e \<Rightarrow> Inl e
       | Inr boc_last \<Rightarrow>
      (case getitem_last tlpb of
         Inl e \<Rightarrow> Inl e
       | Inr tlpb_last \<Rightarrow>
      (case getitem_last ahd of
         Inl e \<Rightarrow> Inl e
       | Inr ahd_last \<Rightarrow>
      (case propagate (gm \<lparr>
                mk_in_channels = boc_last,
                mk_temb_channels = ted,
                mk_resnet_act_fn = act_fn c,
                mk_transformer_layers_per_block = tlpb_last,
                mk_resnet_time_scale_shift = ''default'',
                mk_cross_attention_dim = cross_attention_dim c,
                mk_attn_num_head_channels = ahd_last,
                mk_resnet_groups = norm_num_groups c,
                mk_use_linear_projection = use_linear_projection c\<rparr>) of
         Inl e \<Rightarrow> Inl e
       | Inr mid_block \<Rightarrow>
      (let reversed_block_out_channels = rev (block_out_channels c);
           reversed_attention_head_dim = rev ahd;
           reversed_transformer_layers_per_block = rev tlpb
       in case getitem reversed_block_out_channels 0 of
            Inl e \<Rightarrow> Inl e
          | Inr output_channel \<Rightarrow>
       (case up_blocks_loop c reversed_block_out_channels
                reversed_transformer_layers_per_block reversed_attention_head_dim
                ted gu 0 output_channel (up_block_types c) of
          Inl e \<Rightarrow> Inl e
        | Inr up_blocks \<Rightarrow> Inr (down_blocks, mid_block, up_blocks)))))))))"

text \<open>
  The layer classes and block factories \<^verbatim>\<open>__init__\<close> calls: each layer constructor
  returns the layer's call.
\<close>

record 't library =
  lib_Conv2d :: "int \<Rightarrow> int \<Rightarrow> 't \<Rightarrow> 't"
  lib_Timesteps :: "int option \<Rightarrow> bool \<Rightarrow> int \<Rightarrow> 't \<Rightarrow> 't"
  lib_TimestepEmbedding :: "int option \<Rightarrow> int \<Rightarrow> 't \<Rightarrow> 't"
  lib_GroupNorm :: "int \<Rightarrow> int \<Rightarrow> 't \<Rightarrow> 't"
  lib_silu :: "'t \<Rightarrow> 't"
  lib_get_down_block :: "down_kwargs \<Rightarrow> exn + 't down_block"
  lib_UNetMidBlock2DCrossAttn :: "mid_kwargs \<Rightarrow> exn + ('t \<Rightarrow> 't \<Rightarrow> 't \<Rightarrow> exn + 't)"
  lib_get_up_block :: "up_kwargs \<Rightarrow> exn + 't up_block"

text \<open>\<^verbatim>\<open>__init__\<close>, lines 55 to 181.\<close>

definition init :: "'t library \<Rightarrow> config \<Rightarrow> error + 't unet" where
  "init L c =
     (case getitem (block_out_channels c) 0 of
        Inl e \<Rightarrow> Inl e
      | Inr boc_0 \<Rightarrow>
          (let time_embed_dim = boc_0 * 4;
               text_time = (addition_embed_type c = Some ''text_time'')
           in case init_blocks c time_embed_dim (lib_get_down_block L)
                     (lib_UNetMidBlock2DCrossAttn L) (lib_get_up_block L) of
                Inl e \<Rightarrow> Inl e
              | Inr (down_blocks, mid_block, up_blocks) \<Rightarrow>
                  Inr \<lparr>
                    self_sample_size = sample_size c,
                    self_addition_embed_type = addition_embed_type c,
                    self_conv_in = lib_Conv2d L (in_channels c) boc_0,
                    self_time_proj =
                      lib_Timesteps L (Some boc_0) (flip_sin_to_cos c) (freq_shift c),
                    self_time_embedding = lib_TimestepEmbedding L (Some boc_0) time_embed_dim,
                    self_add_time_proj =
                      (if text_time
                       then Some (lib_Timesteps L (addition_time_embed_dim c)
                                    (flip_sin_to_cos c) (freq_shift c))
                       else None),
                    self_add_embedding =
                      (if text_time
                       then Some (lib_TimestepEmbedding L
                                    (projection_class_embeddings_input_dim c) time_embed_dim)
                       else None),
                    self_down_blocks = down_blocks,
                    self_mid_block = mid_block,
                    self_up_blocks = up_blocks,
                    self_conv_norm_out = lib_GroupNorm L boc_0 (norm_num_groups c),
                    self_conv_act = lib_silu L,
                    self_conv_out = lib_Conv2d L boc_0 (out_channels c)\<rparr>))"

subsection \<open>Well-formed configurations\<close>

text \<open>
  A configuration with \<open>N\<close> stages: \<open>N\<close> channel counts, \<open>N\<close> down and \<open>N\<close> up block
  types, per-stage sequences of length \<open>N\<close> (a scalar is broadcast to that length), and
  a layer count that is not negative.
\<close>

definition valid_config :: "config \<Rightarrow> bool" where
  "valid_config c \<longleftrightarrow>
     block_out_channels c \<noteq> [] \<and>
     length (down_block_types c) = length (block_out_channels c) \<and>
     length (up_block_types c) = length (block_out_channels c) \<and>
     length (broadcast (attention_head_dim c) (length (down_block_types c)))
       = length (block_out_channels c) \<and>
     length (broadcast (transformer_layers_per_block c) (length (down_block_types c)))
       = length (block_out_channels c) \<and>
     0 \<le> layers_per_block c"

text \<open>
  What the subscripts of \<^verbatim>\<open>__init__\<close> need: lists that are not empty (lines 59, 124,
  129, 132 and 142) and that are at least as long as \<^verbatim>\<open>down_block_types\<close> (lines 102, 108
  and 116) and as \<^verbatim>\<open>up_block_types\<close> (lines 145, 156 and 165).
\<close>

definition subscripts_in_range :: "config \<Rightarrow> bool" where
  "subscripts_in_range c \<longleftrightarrow>
     (let ahd = broadcast (attention_head_dim c) (length (down_block_types c));
          tlpb = broadcast (transformer_layers_per_block c) (length (down_block_types c));
          boc = block_out_channels c
      in boc \<noteq> [] \<and> tlpb \<noteq> [] \<and> ahd \<noteq> [] \<and>
         length (down_block_types c) \<le> length boc \<and>
         length (down_block_types c) \<le> length tlpb \<and>
         length (down_block_types c) \<le> length ahd \<and>
         length (up_block_types c) \<le> length boc \<and>
         length (up_block_types c) \<le> length tlpb \<and>
         length (up_block_types c) \<le> length ahd)"

subsection \<open>The blocks of unet\_2d\_blocks\<close>

text \<open>
  Modelled from the spec: \<^verbatim>\<open>unet_2d_blocks.py\<close> (\<^verbatim>\<open>get_down_block\<close>, \<^verbatim>\<open>get_up_block\<close> and
  the block classes) is not among the sources. The spec gives a block instance a resnet
  count and an optional down- or up-sampling convolution, has a down block return its own
  output together with its internal residual outputs, and partitions the skip stack by
  each up stage's residual-block count. The contract reads this as: a down block built
  with \<open>num_layers\<close> residual blocks returns one residual sample for each of them, and
  one more for its down-sampling convolution when it has one; an up block built with
  \<open>num_layers\<close> has that many resnets.
\<close>

definition skip_contract ::
  "(down_kwargs \<Rightarrow> exn + 't down_block) \<Rightarrow> (up_kwargs \<Rightarrow> exn + 't up_block) \<Rightarrow> bool" where
  "skip_contract gd gu \<longleftrightarrow>
     (\<forall>k b h t e s rs. gd k = Inr b \<longrightarrow> db_call b h t e = Inr (s, rs) \<longrightarrow>
        length rs = nat (dk_num_layers k) + (if dk_add_downsample k then 1 else 0)) \<and>
     (\<forall>k b. gu k = Inr b \<longrightarrow> ub_resnets b = nat (uk_num_layers k))"

text \<open>
  Modelled from the spec: the call of an up block is in \<^verbatim>\<open>unet_2d_blocks.py\<close>, which is
  not among the sources. The spec has the up path fail, at the first pop that comes up
  short, when the skip stack is exhausted before a stage's residual-block count is
  satisfied (SkipStackUnderflow). \<^verbatim>\<open>forward\<close> itself only slices, so the contract puts
  the failure in the block, which takes one residual tensor for each of its resnets: a
  block called with fewer residual tensors than it has resnets raises.
\<close>

definition underflow_contract :: "'t up_block \<Rightarrow> bool" where
  "underflow_contract b \<longleftrightarrow>
     (\<forall>h t rs e. length rs < ub_resnets b \<longrightarrow> isl (ub_call b h t rs e))"

subsection \<open>The up path in the spec's words\<close>

text \<open>
  The spec describes the up path by a partition of the skip stack: the stack is consumed
  from its tail, each up stage taking as many tensors as its residual-block count, in
  the order the down path produced them. \<open>skip_segments\<close> is that partition for the
  counts of the stages in turn, and \<open>up_stages\<close> calls each stage's block with its
  segment. They are what \<open>up_path\<close>, the loop of the source, is compared with.
\<close>

fun skip_segments :: "nat list \<Rightarrow> 'a list \<Rightarrow> 'a list list" where
  "skip_segments [] stack = []"
| "skip_segments (n # ns) stack =
     drop (length stack - n) stack # skip_segments ns (take (length stack - n) stack)"

fun up_stages ::
  "'t up_block list \<Rightarrow> 't list list \<Rightarrow> 't \<Rightarrow> 't \<Rightarrow> 't \<Rightarrow> error + 't" where
  "up_stages (b # bs) (seg # segs) emb enc sample =
     (case propagate (ub_call b sample emb seg (if ub_attentions b then Some enc else None)) of
        Inl e \<Rightarrow> Inl e
      | Inr sample' \<Rightarrow> up_stages bs segs emb enc sample')"
| "up_stages bs segs emb enc sample = Inr sample"

subsection \<open>A symbolic instance\<close>

text \<open>
  Tensors as expressions: an input by its name, or a layer applied to tensors. With them
  the result of \<^verbatim>\<open>forward\<close> shows which tensors reached which block.
\<close>

datatype sym = Input string | Op string "sym list"

definition sym_functional :: "sym functional" where
  "sym_functional = \<lparr>
     view_flat = (\<lambda>x. Op ''view'' [x]),
     view_rows_of = (\<lambda>x y. Op ''view'' [x, y]),
     concat_dim1 = (\<lambda>xs. Op ''concat'' xs),
     cast_like = (\<lambda>x y. Op ''cast'' [x, y]),
     tensor_add = (\<lambda>x y. Op ''add'' [x, y])\<rparr>"

text \<open>The hidden states after each of \<open>n\<close> residual blocks in a row.\<close>

fun sym_resnets :: "nat \<Rightarrow> sym \<Rightarrow> sym list" where
  "sym_resnets 0 h = []"
| "sym_resnets (Suc n) h = Op ''resnet'' [h] # sym_resnets n (Op ''resnet'' [h])"

text \<open>
  Modelled from the spec: stand-ins for the blocks of \<^verbatim>\<open>unet_2d_blocks.py\<close>, which is not
  among the sources. The factories know the block types of the spec's closed vocabulary
  and fail with UnsupportedBlockType on any other; a down block returns the outputs of
  its residual blocks and of its down-sampling convolution; an up block fails with
  SkipStackUnderflow when it is called with fewer residual tensors than it has resnets,
  and otherwise returns a tensor that records what it was called with.
\<close>

definition sym_get_down_block :: "down_kwargs \<Rightarrow> exn + sym down_block" where
  "sym_get_down_block k =
     (if dk_block_type k = ''DownBlock2D'' \<or> dk_block_type k = ''CrossAttnDownBlock2D'' then
        Inr \<lparr>
          db_attentions = (dk_block_type k = ''CrossAttnDownBlock2D''),
          db_call = (\<lambda>h t e.
            let rs = sym_resnets (nat (dk_num_layers k)) h;
                out = last (h # rs)
            in if dk_add_downsample k
               then Inr (Op ''downsample'' [out], rs @ [Op ''downsample'' [out]])
               else Inr (out, rs))\<rparr>
      else Inl ''UnsupportedBlockType'')"

definition sym_get_up_block :: "up_kwargs \<Rightarrow> exn + sym up_block" where
  "sym_get_up_block k =
     (if uk_block_type k = ''UpBlock2D'' \<or> uk_block_type k = ''CrossAttnUpBlock2D'' then
        Inr \<lparr>
          ub_resnets = nat (uk_num_layers k),
          ub_attentions = (uk_block_type k = ''CrossAttnUpBlock2D''),
          ub_call = (\<lambda>h t rs e.
            if length rs < nat (uk_num_layers k) then Inl ''SkipStackUnderflow''
            else Inr (Op (uk_block_type k) (h # rs)))\<rparr>
      else Inl ''UnsupportedBlockType'')"

definition sym_library :: "sym library" where
  "sym_library = \<lparr>
     lib_Conv2d = (\<lambda>i n x. Op ''conv'' [x]),
     lib_Timesteps = (\<lambda>n f s x. Op ''timesteps'' [x]),
     lib_TimestepEmbedding = (\<lambda>i n x. Op ''embedding'' [x]),
     lib_GroupNorm = (\<lambda>n g x. Op ''norm'' [x]),
     lib_silu = (\<lambda>x. Op ''silu'' [x]),
     lib_get_down_block = sym_get_down_block,
     lib_UNetMidBlock2DCrossAttn = (\<lambda>k. Inr (\<lambda>h t e. Inr (Op ''mid'' [h]))),
     lib_get_up_block = sym_get_up_block\<rparr>"

text \<open>
  A probe of \<^verbatim>\<open>forward\<close>, not a model of the blocks of \<^verbatim>\<open>unet_2d_blocks.py\<close>: up blocks
  that accept any tuple of residual tensors and return a tensor that records it, so that
  the result of a call shows what \<^verbatim>\<open>forward\<close> handed to each block, whatever a real block
  would then do with it.
\<close>

definition probe_get_up_block :: "up_kwargs \<Rightarrow> exn + sym up_block" where
  "probe_get_up_block k =
     Inr \<lparr>
       ub_resnets = nat (uk_num_layers k),
       ub_attentions = (uk_block_type k = ''CrossAttnUpBlock2D''),
       ub_call = (\<lambda>h t rs e. Inr (Op (uk_block_type k) (h # rs)))\<rparr>"

definition probe_library :: "sym library" where
  "probe_library = sym_library\<lparr>lib_get_up_block := probe_get_up_block\<rparr>"

text \<open>
  A two-stage configuration; the other arguments are the defaults of \<^verbatim>\<open>__init__\<close>.
\<close>

definition small_config :: config where
  "small_config = \<lparr>
     sample_size = None,
     in_channels = 4,
     out_channels = 4,
     flip_sin_to_cos = True,
     freq_shift = 0,
     down_block_types = [''CrossAttnDownBlock2D'', ''DownBlock2D''],
     up_block_types = [''UpBlock2D'', ''CrossAttnUpBlock2D''],
     block_out_channels = [320, 640],
     layers_per_block = 1,
     downsample_padding = 1,
     act_fn = ''silu'',
     norm_num_groups = 32,
     cross_attention_dim = 1280,
     transformer_layers_per_block = Scalar 1,
     attention_head_dim = Scalar 8,
     use_linear_projection = False,
     addition_embed_type = None,
     addition_time_embed_dim = None,
     projection_class_embeddings_input_dim = None\<rparr>"

text \<open>The model \<^verbatim>\<open>UNet2DConditionModel(...)\<close> of that configuration.\<close>

definition small_unet :: "sym unet" where
  "small_unet = projr (init sym_library small_config)"

text \<open>
  The keyword arguments its constructor passes to the factories: \<^verbatim>\<open>__init__\<close> run with
  factories that return what they are given (\<open>1280\<close> is \<^verbatim>\<open>time_embed_dim\<close>).
\<close>

definition small_kwargs :: "down_kwargs list \<times> mid_kwargs \<times> up_kwargs list" where
  "small_kwargs = projr (init_blocks small_config 1280 Inr Inr Inr)"

text \<open>
  Configurations whose lengths disagree. In the first, \<^verbatim>\<open>attention_head_dim\<close> has three
  entries for two stages, in the second it has one; in the third there is one up block
  type for two down block types; in the fourth and fifth there is one down block type for
  two up block types, two channel counts and per-stage sequences of length two.
\<close>

definition long_heads_config :: config where
  "long_heads_config = small_config\<lparr>attention_head_dim := Sequence [5, 10, 20]\<rparr>"

definition short_heads_config :: config where
  "short_heads_config = small_config\<lparr>attention_head_dim := Sequence [8]\<rparr>"

definition short_up_config :: config where
  "short_up_config = small_config\<lparr>up_block_types := [''UpBlock2D'']\<rparr>"

definition short_up_unet :: "sym unet" where
  "short_up_unet = projr (init sym_library short_up_config)"

definition short_down_config :: config where
  "short_down_config = small_config\<lparr>
     down_block_types := [''DownBlock2D''],
     transformer_layers_per_block := Sequence [1, 1],
     attention_head_dim := Sequence [8, 8]\<rparr>"

definition short_down_unet :: "sym unet" where
  "short_down_unet = projr (init sym_library short_down_config)"

definition short_down_deep_config :: config where
  "short_down_deep_config = short_down_config\<lparr>layers_per_block := 2\<rparr>"

text \<open>The model of the fifth configuration, built with the probe's up blocks.\<close>

definition short_down_deep_unet :: "sym unet" where
  "short_down_deep_unet = projr (init probe_library short_down_deep_config)"

section \<open>Properties\<close>

subsection \<open>Slices and the two loops of forward\<close>

lemma slice_split:
  "0 < n \<Longrightarrow> n \<le> length xs \<Longrightarrow> slice_butlast n xs @ slice_last n xs = xs"
  by (simp add: slice_last_def slice_butlast_def)

lemma propagate_Inl: "propagate r = Inl e \<Longrightarrow> \<exists>x. e = Raised x"
  by (auto simp: propagate_def split: sum.splits)

lemma down_path_raised: "down_path bs emb enc st = Inl e \<Longrightarrow> \<exists>x. e = Raised x"
proof (induction bs arbitrary: st)
  case Nil
  then show ?case by (cases st) simp
next
  case (Cons b bs)
  obtain s rs where st: "st = (s, rs)" by (cases st)
  from Cons.prems show ?case
    unfolding st by (auto split: sum.splits dest: propagate_Inl Cons.IH)
qed

lemma up_path_raised: "up_path bs emb enc st = Inl e \<Longrightarrow> \<exists>x. e = Raised x"
proof (induction bs arbitrary: st)
  case Nil
  then show ?case by (cases st) simp
next
  case (Cons b bs)
  obtain s rs where st: "st = (s, rs)" by (cases st)
  from Cons.prems show ?case
    unfolding st by (auto simp: Let_def split: sum.splits dest: propagate_Inl Cons.IH)
qed


lemma up_path_exact:
  assumes "0 < ub_resnets b" and "length seg = ub_resnets b"
  shows "up_path (b # bs) emb enc (s, rest @ seg) =
     (case propagate (ub_call b s emb seg (if ub_attentions b then Some enc else None)) of
        Inl e \<Rightarrow> Inl e
      | Inr s' \<Rightarrow> up_path bs emb enc (s', rest))"
  using assms by (simp add: slice_last_def slice_butlast_def)

lemma up_path_drains:
  "list_all (\<lambda>b. 0 < ub_resnets b) bs \<Longrightarrow> length upper = sum_list (map ub_resnets bs) \<Longrightarrow>
   up_path (bs @ bs') emb enc (s, lower @ upper) =
     (case up_path bs emb enc (s, upper) of
        Inl e \<Rightarrow> Inl e
      | Inr (s', r) \<Rightarrow> up_path bs' emb enc (s', lower))"
proof (induction bs arbitrary: s upper)
  case Nil
  then show ?case by simp
next
  case (Cons b bs)
  let ?n = "ub_resnets b"
  define seg where "seg = drop (length upper - ?n) upper"
  define rest where "rest = take (length upper - ?n) upper"
  from Cons.prems have pos: "0 < ?n" and le: "?n \<le> length upper" by simp_all
  have upper: "upper = rest @ seg" and seg: "length seg = ?n"
    and rest: "length rest = sum_list (map ub_resnets bs)"
    using le Cons.prems(2) by (simp_all add: seg_def rest_def)
  have all: "list_all (\<lambda>b. 0 < ub_resnets b) bs" using Cons.prems(1) by simp
  have 1: "up_path ((b # bs) @ bs') emb enc (s, lower @ upper) =
     (case propagate (ub_call b s emb seg (if ub_attentions b then Some enc else None)) of
        Inl e \<Rightarrow> Inl e
      | Inr s' \<Rightarrow> up_path (bs @ bs') emb enc (s', lower @ rest))"
    using up_path_exact [OF pos seg, of "bs @ bs'" emb enc s "lower @ rest"]
    by (simp add: upper)
  have 2: "up_path (b # bs) emb enc (s, upper) =
     (case propagate (ub_call b s emb seg (if ub_attentions b then Some enc else None)) of
        Inl e \<Rightarrow> Inl e
      | Inr s' \<Rightarrow> up_path bs emb enc (s', rest))"
    using up_path_exact [OF pos seg, of bs emb enc s rest] by (simp add: upper)
  show ?case
    unfolding 1 2 by (simp add: Cons.IH [OF all rest] split: sum.splits)
qed

lemma up_path_empties:
  "list_all (\<lambda>b. 0 < ub_resnets b) bs \<Longrightarrow> length st = sum_list (map ub_resnets bs) \<Longrightarrow>
   up_path bs emb enc (s, st) = Inr (s', r) \<Longrightarrow> r = []"
proof (induction bs arbitrary: s st)
  case Nil
  then show ?case by simp
next
  case (Cons b bs)
  let ?n = "ub_resnets b"
  from Cons.prems have pos: "0 < ?n" and le: "?n \<le> length st" by simp_all
  have len: "length (slice_butlast ?n st) = sum_list (map ub_resnets bs)"
    using pos le Cons.prems(2) by (simp add: slice_butlast_def)
  from Cons.prems(3) obtain s1 where
    "up_path bs emb enc (s1, slice_butlast ?n st) = Inr (s', r)"
    by (auto simp: Let_def split: sum.splits)
  with Cons.IH [OF _ len] Cons.prems(1) show ?case by simp
qed

subsection \<open>The symbolic models\<close>

lemmas sym_eval =
  init_def init_blocks_def small_config_def sym_library_def sym_functional_def
  sym_get_down_block_def sym_get_up_block_def probe_library_def probe_get_up_block_def
  getitem_def getitem_last_def
  propagate_def broadcast_def slice_last_def slice_butlast_def Let_def
  forward_def forward_skip_def forward_down_def forward_emb_def

lemma small_unet_built: "init sym_library small_config = Inr small_unet"
proof -
  have "\<not> isl (init sym_library small_config)"
    by (simp add: sym_eval)
  then show ?thesis by (simp add: small_unet_def)
qed

lemma short_up_unet_built: "init sym_library short_up_config = Inr short_up_unet"
proof -
  have "\<not> isl (init sym_library short_up_config)"
    by (simp add: short_up_config_def sym_eval)
  then show ?thesis by (simp add: short_up_unet_def)
qed

lemma short_down_unet_built: "init sym_library short_down_config = Inr short_down_unet"
proof -
  have "\<not> isl (init sym_library short_down_config)"
    by (simp add: short_down_config_def sym_eval)
  then show ?thesis by (simp add: short_down_unet_def)
qed

lemma short_down_deep_unet_built:
  "init probe_library short_down_deep_config = Inr short_down_deep_unet"
proof -
  have "\<not> isl (init probe_library short_down_deep_config)"
    by (simp add: short_down_deep_config_def short_down_config_def sym_eval)
  then show ?thesis by (simp add: short_down_deep_unet_def)
qed

lemma init_addition_embed_type:
  "init L c = Inr m \<Longrightarrow> self_addition_embed_type m = addition_embed_type c"
  by (auto simp: init_def Let_def split: sum.splits)

subsection \<open>The precondition of the auxiliary conditioning\<close>

text \<open>
  C4. \<^verbatim>\<open>forward\<close> fails its own check (line 195, an \<^verbatim>\<open>assert\<close>, so the exception is an
  AssertionError) if and only if the model was built in \<^verbatim>\<open>text_time\<close> mode and
  \<open>text_embeds\<close> or \<open>time_ids\<close> is \<^verbatim>\<open>None\<close>. In any other mode the embedding is the
  timestep embedding alone and the call does what it does without the two arguments.
\<close>

theorem forward_precondition:
  "(forward F m sample timesteps enc text_embeds time_ids = Inl AssertionError \<longleftrightarrow>
      self_addition_embed_type m = Some ''text_time'' \<and>
      (text_embeds = None \<or> time_ids = None)) \<and>
   (self_addition_embed_type m \<noteq> Some ''text_time'' \<longrightarrow>
      forward_emb F m timesteps text_embeds time_ids =
        Inr (self_time_embedding m (self_time_proj m timesteps)) \<and>
      forward F m sample timesteps enc text_embeds time_ids =
        forward F m sample timesteps enc None None)"
proof -
  have emb: "forward_emb F m timesteps text_embeds time_ids = Inl AssertionError \<longleftrightarrow>
     self_addition_embed_type m = Some ''text_time'' \<and>
     (text_embeds = None \<or> time_ids = None)"
    by (auto simp: forward_emb_def Let_def split: option.splits)
  have skip: "forward_skip F m sample timesteps enc text_embeds time_ids = Inl AssertionError
     \<longleftrightarrow> forward_emb F m timesteps text_embeds time_ids = Inl AssertionError"
    by (auto simp: forward_skip_def forward_down_def Let_def split: sum.splits
          dest: down_path_raised up_path_raised propagate_Inl)
  have "forward F m sample timesteps enc text_embeds time_ids = Inl AssertionError \<longleftrightarrow>
     forward_skip F m sample timesteps enc text_embeds time_ids = Inl AssertionError"
    by (auto simp: forward_def split: sum.splits)
  with emb skip have first:
    "forward F m sample timesteps enc text_embeds time_ids = Inl AssertionError \<longleftrightarrow>
      self_addition_embed_type m = Some ''text_time'' \<and>
      (text_embeds = None \<or> time_ids = None)"
    by simp
  have second: "self_addition_embed_type m \<noteq> Some ''text_time'' \<longrightarrow>
      forward_emb F m timesteps text_embeds time_ids =
        Inr (self_time_embedding m (self_time_proj m timesteps)) \<and>
      forward F m sample timesteps enc text_embeds time_ids =
        forward F m sample timesteps enc None None"
    by (simp add: forward_def forward_skip_def forward_down_def forward_emb_def)
  from first second show ?thesis by blast
qed

theorem forward_precondition_witness:
  "self_addition_embed_type small_unet \<noteq> Some ''text_time'' \<and>
   forward sym_functional small_unet (Input ''x'') (Input ''t'') (Input ''e'')
     (Some (Input ''text'')) (Some (Input ''ids''))
     \<noteq> Inl AssertionError \<and>
   forward_emb sym_functional small_unet (Input ''t'')
     (Some (Input ''text'')) (Some (Input ''ids''))
     = Inr (self_time_embedding small_unet (self_time_proj small_unet (Input ''t''))) \<and>
   forward sym_functional small_unet (Input ''x'') (Input ''t'') (Input ''e'')
     (Some (Input ''text'')) (Some (Input ''ids''))
     = forward sym_functional small_unet (Input ''x'') (Input ''t'') (Input ''e'') None None"
proof -
  have mode: "self_addition_embed_type small_unet \<noteq> Some ''text_time''"
    using init_addition_embed_type [OF small_unet_built] by (simp add: small_config_def)
  with forward_precondition [of sym_functional small_unet "Input ''x''" "Input ''t''"
      "Input ''e''" "Some (Input ''text'')" "Some (Input ''ids'')"]
  show ?thesis by blast
qed

subsection \<open>The up path when the skip stack runs short\<close>

text \<open>
  \<^verbatim>\<open>forward\<close> has no check of its own on the skip stack, and a slice never raises: when
  fewer tensors remain than an up stage's resnet count, the stage's block is called with
  the tensors that remain.
\<close>

lemma up_path_short:
  "length st < ub_resnets b \<Longrightarrow>
   up_path (b # bs) emb enc (s, st) =
     (case propagate (ub_call b s emb st (if ub_attentions b then Some enc else None)) of
        Inl e \<Rightarrow> Inl e
      | Inr s' \<Rightarrow> up_path bs emb enc (s', []))"
  by (simp add: slice_last_def slice_butlast_def)

lemma up_path_short_fails:
  assumes "underflow_contract b" and "length st < ub_resnets b"
  shows "\<exists>x. up_path (b # bs) emb enc (s, st) = Inl (Raised x)"
    and "up_path (b # bs) emb enc (s, st) = up_path [b] emb enc (s, st)"
proof -
  let ?call = "ub_call b s emb st (if ub_attentions b then Some enc else None)"
  from assms have "isl ?call" by (simp add: underflow_contract_def)
  then obtain x where x: "?call = Inl x" by (cases ?call) auto
  have any: "up_path (b # bs') emb enc (s, st) = Inl (Raised x)" for bs'
    unfolding up_path_short [OF assms(2)] by (simp add: x propagate_def)
  from any [of bs] show "\<exists>x. up_path (b # bs) emb enc (s, st) = Inl (Raised x)" by blast
  from any [of bs] any [of "[]"]
  show "up_path (b # bs) emb enc (s, st) = up_path [b] emb enc (s, st)" by simp
qed

lemma up_path_first_short:
  assumes contract: "underflow_contract b"
    and pos: "list_all (\<lambda>u. 0 < ub_resnets u) pre"
    and enough: "sum_list (map ub_resnets pre) \<le> length st"
    and short: "length st < sum_list (map ub_resnets pre) + ub_resnets b"
  shows "\<exists>x. up_path (pre @ b # post) emb enc (s, st) = Inl (Raised x)"
    and "up_path (pre @ b # post) emb enc (s, st) = up_path (pre @ [b]) emb enc (s, st)"
proof -
  let ?n = "sum_list (map ub_resnets pre)"
  define upper where "upper = drop (length st - ?n) st"
  define lower where "lower = take (length st - ?n) st"
  have st: "st = lower @ upper" and upper: "length upper = ?n"
    and lower: "length lower < ub_resnets b"
    using enough short by (simp_all add: upper_def lower_def)
  have split: "up_path (pre @ bs') emb enc (s, st) =
      (case up_path pre emb enc (s, upper) of
         Inl e \<Rightarrow> Inl e
       | Inr (s', r) \<Rightarrow> up_path bs' emb enc (s', lower))" for bs'
    unfolding st by (rule up_path_drains [OF pos upper])
  show "\<exists>x. up_path (pre @ b # post) emb enc (s, st) = Inl (Raised x)"
  proof (cases "up_path pre emb enc (s, upper)")
    case (Inl e)
    with up_path_raised [OF Inl] show ?thesis by (auto simp: split)
  next
    case (Inr r)
    obtain s' r' where "r = (s', r')" by (cases r)
    with Inr up_path_short_fails(1) [OF contract lower, of post emb enc s']
    show ?thesis by (auto simp: split)
  qed
  have "up_path (b # post) emb enc (s', lower) = up_path [b] emb enc (s', lower)" for s'
    by (rule up_path_short_fails(2) [OF contract lower])
  then show "up_path (pre @ b # post) emb enc (s, st) = up_path (pre @ [b]) emb enc (s, st)"
    by (simp only: split [of "b # post"] split [of "[b]"])
qed

lemma forward_down_up_blocks:
  "forward_down F (m\<lparr>self_up_blocks := us\<rparr>) sample timesteps enc text_embeds time_ids =
   forward_down F m sample timesteps enc text_embeds time_ids"
  by (simp add: forward_down_def forward_emb_def Let_def
        split: option.splits sum.splits prod.splits)

text \<open>
  C1. Let the stage's block keep \<open>underflow_contract\<close>: an up block called with fewer
  residual tensors than it has resnets raises. If the skip stack that the down path left is
  enough for the up stages before some stage and too short for that stage as well, the
  call fails: it raises an exception of a block, at that stage at the latest, and the
  stages after it never run (the call does what it would do without them).
\<close>

theorem forward_underflow_fails:
  assumes "underflow_contract b"
    and "self_up_blocks m = pre @ b # post"
    and "list_all (\<lambda>u. 0 < ub_resnets u) pre"
    and "forward_down F m sample timesteps enc text_embeds time_ids = Inr (emb, s, st)"
    and "sum_list (map ub_resnets pre) \<le> length st"
    and "length st < sum_list (map ub_resnets pre) + ub_resnets b"
  shows "(\<exists>x. forward F m sample timesteps enc text_embeds time_ids = Inl (Raised x)) \<and>
         forward F m sample timesteps enc text_embeds time_ids =
           forward F (m\<lparr>self_up_blocks := pre @ [b]\<rparr>) sample timesteps enc
             text_embeds time_ids"
proof -
  note short = up_path_first_short [OF assms(1,3,5,6)]
  have skip: "forward_skip F m' sample timesteps enc text_embeds time_ids =
      (case propagate (self_mid_block m s emb enc) of
         Inl e \<Rightarrow> Inl e
       | Inr s2 \<Rightarrow> up_path (self_up_blocks m') emb enc (s2, st))"
    if "forward_down F m' sample timesteps enc text_embeds time_ids = Inr (emb, s, st)"
      and "self_mid_block m' = self_mid_block m" for m'
    using that by (simp add: forward_skip_def)
  have one: "forward_skip F m sample timesteps enc text_embeds time_ids =
      (case propagate (self_mid_block m s emb enc) of
         Inl e \<Rightarrow> Inl e
       | Inr s2 \<Rightarrow> up_path (pre @ b # post) emb enc (s2, st))"
    using skip [of m] assms(2,4) by (simp split: sum.splits)
  have two: "forward_skip F (m\<lparr>self_up_blocks := pre @ [b]\<rparr>) sample timesteps enc
      text_embeds time_ids =
      (case propagate (self_mid_block m s emb enc) of
         Inl e \<Rightarrow> Inl e
       | Inr s2 \<Rightarrow> up_path (pre @ [b]) emb enc (s2, st))"
    using skip [of "m\<lparr>self_up_blocks := pre @ [b]\<rparr>"] assms(4)
    by (simp add: forward_down_up_blocks split: sum.splits)
  have same: "forward_skip F m sample timesteps enc text_embeds time_ids =
      forward_skip F (m\<lparr>self_up_blocks := pre @ [b]\<rparr>) sample timesteps enc
        text_embeds time_ids"
    by (simp only: one two short(2) [of post])
  have fails: "\<exists>x. forward_skip F m sample timesteps enc text_embeds time_ids = Inl (Raised x)"
  proof (cases "propagate (self_mid_block m s emb enc)")
    case (Inl e)
    with propagate_Inl [OF Inl] show ?thesis by (auto simp: one)
  next
    case (Inr s2)
    with short(1) [of post emb enc s2] show ?thesis by (auto simp: one)
  qed
  from fails have "\<exists>x. forward F m sample timesteps enc text_embeds time_ids = Inl (Raised x)"
    by (auto simp: forward_def)
  moreover from same have "forward F m sample timesteps enc text_embeds time_ids =
      forward F (m\<lparr>self_up_blocks := pre @ [b]\<rparr>) sample timesteps enc text_embeds time_ids"
    by (simp add: forward_def split: sum.splits prod.splits)
  ultimately show ?thesis by blast
qed

theorem forward_underflow_fails_witness:
  "underflow_contract (self_up_blocks short_down_unet ! 1) \<and>
   self_up_blocks short_down_unet =
     [self_up_blocks short_down_unet ! 0] @ (self_up_blocks short_down_unet ! 1) # [] \<and>
   map ub_resnets (self_up_blocks short_down_unet) = [2, 2] \<and>
   forward_down sym_functional short_down_unet (Input ''x'') (Input ''t'') (Input ''e'')
     None None =
     Inr (Op ''embedding'' [Op ''timesteps'' [Input ''t'']],
          Op ''downsample'' [Op ''resnet'' [Op ''conv'' [Input ''x'']]],
          [Op ''conv'' [Input ''x''],
           Op ''resnet'' [Op ''conv'' [Input ''x'']],
           Op ''downsample'' [Op ''resnet'' [Op ''conv'' [Input ''x'']]]]) \<and>
   forward sym_functional short_down_unet (Input ''x'') (Input ''t'') (Input ''e'')
     None None = Inl (Raised ''SkipStackUnderflow'')"
proof -
  let ?ups = "self_up_blocks short_down_unet"
  let ?st = "[Op ''conv'' [Input ''x''],
           Op ''resnet'' [Op ''conv'' [Input ''x'']],
           Op ''downsample'' [Op ''resnet'' [Op ''conv'' [Input ''x'']]]]"
  have c: "underflow_contract (?ups ! 1)"
    by (simp add: underflow_contract_def short_down_unet_def short_down_config_def sym_eval)
  have u: "?ups = [?ups ! 0] @ (?ups ! 1) # []"
    and n: "map ub_resnets ?ups = [2, 2]"
    by (simp_all add: short_down_unet_def short_down_config_def sym_eval)
  have p: "list_all (\<lambda>u. 0 < ub_resnets u) [?ups ! 0]"
    and l1: "sum_list (map ub_resnets [?ups ! 0]) \<le> length ?st"
    and l2: "length ?st < sum_list (map ub_resnets [?ups ! 0]) + ub_resnets (?ups ! 1)"
    by (simp_all add: short_down_unet_def short_down_config_def sym_eval)
  have d: "forward_down sym_functional short_down_unet (Input ''x'') (Input ''t'')
      (Input ''e'') None None =
     Inr (Op ''embedding'' [Op ''timesteps'' [Input ''t'']],
          Op ''downsample'' [Op ''resnet'' [Op ''conv'' [Input ''x'']]], ?st)"
    by (simp add: short_down_unet_def short_down_config_def sym_eval)
  have f: "forward sym_functional short_down_unet (Input ''x'') (Input ''t'') (Input ''e'')
     None None = Inl (Raised ''SkipStackUnderflow'')"
    by (simp add: short_down_unet_def short_down_config_def sym_eval)
  from forward_underflow_fails [OF c u p d l1 l2] c u n d f show ?thesis by blast
qed

subsection \<open>What an up stage takes off the skip stack\<close>

text \<open>
  C5, as the spec states it: every up stage removes exactly its resnet count of tensors.
  The model below, built with the probe's up blocks, has two up blocks of three resnets
  each; on a stack of four tensors \<^verbatim>\<open>forward\<close> hands the first the last three and
  the second the one that is left, not three.
\<close>

theorem up_path_pop_counterexample:
  "map ub_resnets (self_up_blocks short_down_deep_unet) = [3, 3] \<and>
   up_path (self_up_blocks short_down_deep_unet) (Input ''emb'') (Input ''e'')
     (Input ''h'', [Input ''r0'', Input ''r1'', Input ''r2'', Input ''r3'']) =
     Inr (Op ''CrossAttnUpBlock2D''
            [Op ''UpBlock2D'' [Input ''h'', Input ''r1'', Input ''r2'', Input ''r3''],
             Input ''r0''],
          [])"
  by (simp add: short_down_deep_unet_def short_down_deep_config_def short_down_config_def
        sym_eval)

text \<open>
  C5, amended: when an up stage's resnet count is positive and at most the number of
  tensors on the skip stack, \<^verbatim>\<open>forward\<close> takes exactly that many tensors off the end of
  the stack before it calls the stage's block, passes them to the block in the order
  the down path produced them, and goes on to the next stage with the tensors below them.
\<close>

theorem up_path_pop:
  assumes "0 < ub_resnets b" and "length res_samples = ub_resnets b"
  shows "up_path (b # bs) emb enc (s, rest @ res_samples) =
     (case propagate
             (ub_call b s emb res_samples (if ub_attentions b then Some enc else None)) of
        Inl e \<Rightarrow> Inl e
      | Inr s' \<Rightarrow> up_path bs emb enc (s', rest))"
  using assms by (rule up_path_exact)

theorem up_path_pop_witness:
  "0 < ub_resnets (hd (self_up_blocks small_unet)) \<and>
   length [Input ''r2'', Input ''r3''] = ub_resnets (hd (self_up_blocks small_unet)) \<and>
   up_path [hd (self_up_blocks small_unet)] (Input ''emb'') (Input ''e'')
     (Input ''h'', [Input ''r0'', Input ''r1''] @ [Input ''r2'', Input ''r3'']) =
     Inr (Op ''UpBlock2D'' [Input ''h'', Input ''r2'', Input ''r3''],
          [Input ''r0'', Input ''r1''])"
  using up_path_pop [of "hd (self_up_blocks small_unet)" "[Input ''r2'', Input ''r3'']" "[]"
      "Input ''emb''" "Input ''e''" "Input ''h''" "[Input ''r0'', Input ''r1'']"]
  by (simp add: small_unet_def sym_eval)

subsection \<open>The loops of the constructor\<close>

lemma is_final_block_iff: "(int i = int n - 1) \<longleftrightarrow> (Suc i = n)"
  by auto

lemma down_blocks_loop_kwargs:
  "down_blocks_loop c tlpb ahd ted Inr i oc tys = Inr dks \<Longrightarrow>
   length dks = length tys \<and>
   (\<forall>j<length tys.
      i + j < length (block_out_channels c) \<and> i + j < length tlpb \<and> i + j < length ahd \<and>
      dks ! j = \<lparr>
        dk_block_type = tys ! j,
        dk_num_layers = layers_per_block c,
        dk_transformer_layers_per_block = tlpb ! (i + j),
        dk_in_channels = (if j = 0 then oc else block_out_channels c ! (i + j - 1)),
        dk_out_channels = block_out_channels c ! (i + j),
        dk_temb_channels = ted,
        dk_add_downsample = (Suc (i + j) \<noteq> length (block_out_channels c)),
        dk_resnet_act_fn = act_fn c,
        dk_cross_attention_dim = cross_attention_dim c,
        dk_attn_num_head_channels = ahd ! (i + j),
        dk_downsample_padding = downsample_padding c,
        dk_use_linear_projection = use_linear_projection c\<rparr>)"
proof (induction tys arbitrary: i oc dks)
  case Nil
  then show ?case by simp
next
  case (Cons ty tys)
  from Cons.prems obtain k rest where
    i: "i < length (block_out_channels c)" "i < length tlpb" "i < length ahd"
    and dks: "dks = k # rest"
    and k: "k = \<lparr>
        dk_block_type = ty,
        dk_num_layers = layers_per_block c,
        dk_transformer_layers_per_block = tlpb ! i,
        dk_in_channels = oc,
        dk_out_channels = block_out_channels c ! i,
        dk_temb_channels = ted,
        dk_add_downsample = (Suc i \<noteq> length (block_out_channels c)),
        dk_resnet_act_fn = act_fn c,
        dk_cross_attention_dim = cross_attention_dim c,
        dk_attn_num_head_channels = ahd ! i,
        dk_downsample_padding = downsample_padding c,
        dk_use_linear_projection = use_linear_projection c\<rparr>"
    and rest: "down_blocks_loop c tlpb ahd ted Inr (Suc i) (block_out_channels c ! i) tys
                 = Inr rest"
    by (auto simp: getitem_def propagate_def Let_def is_final_block_iff
          split: sum.splits if_splits)
  note IH = Cons.IH [OF rest]
  show ?case
  proof (intro conjI allI impI)
    show "length dks = length (ty # tys)" using IH dks by simp
  next
    fix j assume j: "j < length (ty # tys)"
    show "i + j < length (block_out_channels c)"
      using i IH j by (cases j) auto
    show "i + j < length tlpb" using i IH j by (cases j) auto
    show "i + j < length ahd" using i IH j by (cases j) auto
    show "dks ! j = \<lparr>
        dk_block_type = (ty # tys) ! j,
        dk_num_layers = layers_per_block c,
        dk_transformer_layers_per_block = tlpb ! (i + j),
        dk_in_channels = (if j = 0 then oc else block_out_channels c ! (i + j - 1)),
        dk_out_channels = block_out_channels c ! (i + j),
        dk_temb_channels = ted,
        dk_add_downsample = (Suc (i + j) \<noteq> length (block_out_channels c)),
        dk_resnet_act_fn = act_fn c,
        dk_cross_attention_dim = cross_attention_dim c,
        dk_attn_num_head_channels = ahd ! (i + j),
        dk_downsample_padding = downsample_padding c,
        dk_use_linear_projection = use_linear_projection c\<rparr>"
    proof (cases j)
      case 0
      then show ?thesis using dks k by simp
    next
      case (Suc j')
      with j have "j' < length tys" by simp
      with IH have "rest ! j' = \<lparr>
        dk_block_type = tys ! j',
        dk_num_layers = layers_per_block c,
        dk_transformer_layers_per_block = tlpb ! (Suc i + j'),
        dk_in_channels = (if j' = 0 then block_out_channels c ! i
                          else block_out_channels c ! (Suc i + j' - 1)),
        dk_out_channels = block_out_channels c ! (Suc i + j'),
        dk_temb_channels = ted,
        dk_add_downsample = (Suc (Suc i + j') \<noteq> length (block_out_channels c)),
        dk_resnet_act_fn = act_fn c,
        dk_cross_attention_dim = cross_attention_dim c,
        dk_attn_num_head_channels = ahd ! (Suc i + j'),
        dk_downsample_padding = downsample_padding c,
        dk_use_linear_projection = use_linear_projection c\<rparr>"
        by blast
      then show ?thesis using dks Suc by (cases j') simp_all
    qed
  qed
qed


lemma up_blocks_loop_kwargs:
  "up_blocks_loop c rboc rtlpb rahd ted Inr i oc tys = Inr uks \<Longrightarrow>
   length rboc = length (block_out_channels c) \<Longrightarrow>
   length uks = length tys \<and>
   (\<forall>j<length tys.
      i + j < length rboc \<and> i + j < length rtlpb \<and> i + j < length rahd \<and>
      uks ! j = \<lparr>
        uk_block_type = tys ! j,
        uk_num_layers = layers_per_block c + 1,
        uk_transformer_layers_per_block = rtlpb ! (i + j),
        uk_in_channels = rboc ! min (i + j + 1) (length rboc - 1),
        uk_out_channels = rboc ! (i + j),
        uk_prev_output_channel = (if j = 0 then oc else rboc ! (i + j - 1)),
        uk_temb_channels = ted,
        uk_add_upsample = (Suc (i + j) \<noteq> length rboc),
        uk_resnet_act_fn = act_fn c,
        uk_cross_attention_dim = cross_attention_dim c,
        uk_attn_num_head_channels = rahd ! (i + j),
        uk_use_linear_projection = use_linear_projection c\<rparr>)"
proof (induction tys arbitrary: i oc uks)
  case Nil
  then show ?case by simp
next
  case (Cons ty tys)
  note len = Cons.prems(2)
  have clamp: "nat (min (int i + 1) (int (length (block_out_channels c)) - 1))
      = min (i + 1) (length rboc - 1)" if "i < length rboc"
    using that len by auto
  from Cons.prems(1) obtain k rest where
    i: "i < length rboc" "i < length rtlpb" "i < length rahd"
    and uks: "uks = k # rest"
    and k: "k = \<lparr>
        uk_block_type = ty,
        uk_num_layers = layers_per_block c + 1,
        uk_transformer_layers_per_block = rtlpb ! i,
        uk_in_channels = rboc ! min (i + 1) (length rboc - 1),
        uk_out_channels = rboc ! i,
        uk_prev_output_channel = oc,
        uk_temb_channels = ted,
        uk_add_upsample = (Suc i \<noteq> length rboc),
        uk_resnet_act_fn = act_fn c,
        uk_cross_attention_dim = cross_attention_dim c,
        uk_attn_num_head_channels = rahd ! i,
        uk_use_linear_projection = use_linear_projection c\<rparr>"
    and rest: "up_blocks_loop c rboc rtlpb rahd ted Inr (Suc i) (rboc ! i) tys = Inr rest"
    by (auto simp: getitem_def propagate_def Let_def is_final_block_iff len clamp
          split: sum.splits if_splits)
  note IH = Cons.IH [OF rest len]
  show ?case
  proof (intro conjI allI impI)
    show "length uks = length (ty # tys)" using IH uks by simp
  next
    fix j assume j: "j < length (ty # tys)"
    show "i + j < length rboc" using i IH j by (cases j) auto
    show "i + j < length rtlpb" using i IH j by (cases j) auto
    show "i + j < length rahd" using i IH j by (cases j) auto
    show "uks ! j = \<lparr>
        uk_block_type = (ty # tys) ! j,
        uk_num_layers = layers_per_block c + 1,
        uk_transformer_layers_per_block = rtlpb ! (i + j),
        uk_in_channels = rboc ! min (i + j + 1) (length rboc - 1),
        uk_out_channels = rboc ! (i + j),
        uk_prev_output_channel = (if j = 0 then oc else rboc ! (i + j - 1)),
        uk_temb_channels = ted,
        uk_add_upsample = (Suc (i + j) \<noteq> length rboc),
        uk_resnet_act_fn = act_fn c,
        uk_cross_attention_dim = cross_attention_dim c,
        uk_attn_num_head_channels = rahd ! (i + j),
        uk_use_linear_projection = use_linear_projection c\<rparr>"
    proof (cases j)
      case 0
      then show ?thesis using uks k by simp
    next
      case (Suc j')
      with j have "j' < length tys" by simp
      with IH have "rest ! j' = \<lparr>
        uk_block_type = tys ! j',
        uk_num_layers = layers_per_block c + 1,
        uk_transformer_layers_per_block = rtlpb ! (Suc i + j'),
        uk_in_channels = rboc ! min (Suc i + j' + 1) (length rboc - 1),
        uk_out_channels = rboc ! (Suc i + j'),
        uk_prev_output_channel = (if j' = 0 then rboc ! i else rboc ! (Suc i + j' - 1)),
        uk_temb_channels = ted,
        uk_add_upsample = (Suc (Suc i + j') \<noteq> length rboc),
        uk_resnet_act_fn = act_fn c,
        uk_cross_attention_dim = cross_attention_dim c,
        uk_attn_num_head_channels = rahd ! (Suc i + j'),
        uk_use_linear_projection = use_linear_projection c\<rparr>"
        by blast
      then show ?thesis using uks Suc by (cases j') simp_all
    qed
  qed
qed

text \<open>
  The keyword arguments do not depend on the factories: a run that succeeds with any
  factories passes them what a run with factories that return their argument records.
\<close>

lemma down_blocks_loop_factory:
  "down_blocks_loop c tlpb ahd ted gd i oc tys = Inr bs \<Longrightarrow>
   \<exists>dks. down_blocks_loop c tlpb ahd ted Inr i oc tys = Inr dks \<and>
         map gd dks = map Inr bs"
proof (induction tys arbitrary: i oc bs)
  case Nil
  then show ?case by simp
next
  case (Cons ty tys)
  from Cons.prems obtain b rest where
    i: "i < length (block_out_channels c)" "i < length tlpb" "i < length ahd"
    and bs: "bs = b # rest"
    and b: "gd \<lparr>
        dk_block_type = ty,
        dk_num_layers = layers_per_block c,
        dk_transformer_layers_per_block = tlpb ! i,
        dk_in_channels = oc,
        dk_out_channels = block_out_channels c ! i,
        dk_temb_channels = ted,
        dk_add_downsample = (\<not> int i = int (length (block_out_channels c)) - 1),
        dk_resnet_act_fn = act_fn c,
        dk_cross_attention_dim = cross_attention_dim c,
        dk_attn_num_head_channels = ahd ! i,
        dk_downsample_padding = downsample_padding c,
        dk_use_linear_projection = use_linear_projection c\<rparr> = Inr b"
    and rest: "down_blocks_loop c tlpb ahd ted gd (Suc i) (block_out_channels c ! i) tys
                 = Inr rest"
    by (auto simp: getitem_def propagate_def Let_def split: sum.splits if_splits)
  from Cons.IH [OF rest] obtain dks where
    "down_blocks_loop c tlpb ahd ted Inr (Suc i) (block_out_channels c ! i) tys = Inr dks"
    "map gd dks = map Inr rest"
    by blast
  with i bs b show ?case
    by (simp add: getitem_def propagate_def Let_def)
qed

lemma up_blocks_loop_factory:
  "up_blocks_loop c rboc rtlpb rahd ted gu i oc tys = Inr bs \<Longrightarrow>
   \<exists>uks. up_blocks_loop c rboc rtlpb rahd ted Inr i oc tys = Inr uks \<and>
         map gu uks = map Inr bs"
proof (induction tys arbitrary: i oc bs)
  case Nil
  then show ?case by simp
next
  case (Cons ty tys)
  let ?j = "nat (min (int i + 1) (int (length (block_out_channels c)) - 1))"
  from Cons.prems obtain b rest where
    i: "i < length rboc" "?j < length rboc" "i < length rtlpb" "i < length rahd"
    and bs: "bs = b # rest"
    and b: "gu \<lparr>
        uk_block_type = ty,
        uk_num_layers = layers_per_block c + 1,
        uk_transformer_layers_per_block = rtlpb ! i,
        uk_in_channels = rboc ! ?j,
        uk_out_channels = rboc ! i,
        uk_prev_output_channel = oc,
        uk_temb_channels = ted,
        uk_add_upsample = (\<not> int i = int (length (block_out_channels c)) - 1),
        uk_resnet_act_fn = act_fn c,
        uk_cross_attention_dim = cross_attention_dim c,
        uk_attn_num_head_channels = rahd ! i,
        uk_use_linear_projection = use_linear_projection c\<rparr> = Inr b"
    and rest: "up_blocks_loop c rboc rtlpb rahd ted gu (Suc i) (rboc ! i) tys = Inr rest"
    by (auto simp: getitem_def propagate_def Let_def split: sum.splits if_splits)
  from Cons.IH [OF rest] obtain uks where
    "up_blocks_loop c rboc rtlpb rahd ted Inr (Suc i) (rboc ! i) tys = Inr uks"
    "map gu uks = map Inr rest"
    by blast
  with i bs b show ?case
    by (simp add: getitem_def propagate_def Let_def)
qed

lemma init_blocks_factory:
  assumes "init_blocks c ted gd gm gu = Inr (ds, m, us)"
  shows "\<exists>dks mk uks. init_blocks c ted Inr Inr Inr = Inr (dks, mk, uks) \<and>
           map gd dks = map Inr ds \<and> gm mk = Inr m \<and> map gu uks = map Inr us"
proof -
  let ?ahd = "broadcast (attention_head_dim c) (length (down_block_types c))"
  let ?tlpb = "broadcast (transformer_layers_per_block c) (length (down_block_types c))"
  let ?boc = "block_out_channels c"
  let ?mk = "\<lparr>
      mk_in_channels = last ?boc,
      mk_temb_channels = ted,
      mk_resnet_act_fn = act_fn c,
      mk_transformer_layers_per_block = last ?tlpb,
      mk_resnet_time_scale_shift = ''default'',
      mk_cross_attention_dim = cross_attention_dim c,
      mk_attn_num_head_channels = last ?ahd,
      mk_resnet_groups = norm_num_groups c,
      mk_use_linear_projection = use_linear_projection c\<rparr>"
  from assms have ne: "?boc \<noteq> []" "?tlpb \<noteq> []" "?ahd \<noteq> []"
    and d: "down_blocks_loop c ?tlpb ?ahd ted gd 0 (?boc ! 0) (down_block_types c) = Inr ds"
    and m: "gm ?mk = Inr m"
    and u: "up_blocks_loop c (rev ?boc) (rev ?tlpb) (rev ?ahd) ted gu 0 (rev ?boc ! 0)
              (up_block_types c) = Inr us"
    by (auto simp: init_blocks_def getitem_def getitem_last_def propagate_def Let_def
          split: sum.splits if_splits)
  from down_blocks_loop_factory [OF d] obtain dks where
    dks: "down_blocks_loop c ?tlpb ?ahd ted Inr 0 (?boc ! 0) (down_block_types c) = Inr dks"
      "map gd dks = map Inr ds"
    by blast
  from up_blocks_loop_factory [OF u] obtain uks where
    uks: "up_blocks_loop c (rev ?boc) (rev ?tlpb) (rev ?ahd) ted Inr 0 (rev ?boc ! 0)
              (up_block_types c) = Inr uks"
      "map gu uks = map Inr us"
    by blast
  have "init_blocks c ted Inr Inr Inr = Inr (dks, ?mk, uks)"
    using ne dks(1) uks(1)
    by (simp add: init_blocks_def getitem_def getitem_last_def propagate_def Let_def)
  with dks(2) m uks(2) show ?thesis by blast
qed


text \<open>
  With factories that accept the block types they are asked for, the constructor fails
  only on a subscript out of range.
\<close>

lemma propagate_total: "\<not> isl r \<Longrightarrow> \<exists>b. propagate r = Inr b"
  by (cases r) (auto simp: propagate_def)

lemma down_blocks_loop_total:
  "(\<forall>k. dk_block_type k \<in> set tys \<longrightarrow> \<not> isl (gd k)) \<Longrightarrow>
   down_blocks_loop c tlpb ahd ted gd i oc tys =
           (if tys = [] \<or> (i + length tys \<le> length (block_out_channels c) \<and>
                           i + length tys \<le> length tlpb \<and> i + length tys \<le> length ahd)
            then Inr (projr (down_blocks_loop c tlpb ahd ted gd i oc tys))
            else Inl IndexError)"
proof (induction tys arbitrary: i oc)
  case Nil
  then show ?case by simp
next
  case (Cons ty tys)
  from Cons.prems have total: "\<forall>k. dk_block_type k \<in> set tys \<longrightarrow> \<not> isl (gd k)"
    by simp
  note IH = Cons.IH [OF total]
  show ?case
  proof (cases "i < length (block_out_channels c) \<and> i < length tlpb \<and> i < length ahd")
    case False
    then show ?thesis by (auto simp: getitem_def Let_def)
  next
    case True
    let ?k = "\<lparr>
        dk_block_type = ty,
        dk_num_layers = layers_per_block c,
        dk_transformer_layers_per_block = tlpb ! i,
        dk_in_channels = oc,
        dk_out_channels = block_out_channels c ! i,
        dk_temb_channels = ted,
        dk_add_downsample = (\<not> int i = int (length (block_out_channels c)) - 1),
        dk_resnet_act_fn = act_fn c,
        dk_cross_attention_dim = cross_attention_dim c,
        dk_attn_num_head_channels = ahd ! i,
        dk_downsample_padding = downsample_padding c,
        dk_use_linear_projection = use_linear_projection c\<rparr>"
    from Cons.prems have "\<not> isl (gd ?k)" by simp
    from propagate_total [OF this] obtain b where b: "propagate (gd ?k) = Inr b"
      by blast
    have step: "down_blocks_loop c tlpb ahd ted gd i oc (ty # tys) =
       (case down_blocks_loop c tlpb ahd ted gd (Suc i) (block_out_channels c ! i) tys of
          Inl e \<Rightarrow> Inl e | Inr bs \<Rightarrow> Inr (b # bs))"
      using True b by (simp add: getitem_def Let_def)
    show ?thesis
      unfolding step using True
      by (subst (1 2) IH) (cases "tys = []"; auto)
  qed
qed

lemma up_blocks_loop_total:
  "(\<forall>k. uk_block_type k \<in> set tys \<longrightarrow> \<not> isl (gu k)) \<Longrightarrow>
   length rboc = length (block_out_channels c) \<Longrightarrow>
   up_blocks_loop c rboc rtlpb rahd ted gu i oc tys =
           (if tys = [] \<or> (i + length tys \<le> length rboc \<and>
                           i + length tys \<le> length rtlpb \<and> i + length tys \<le> length rahd)
            then Inr (projr (up_blocks_loop c rboc rtlpb rahd ted gu i oc tys))
            else Inl IndexError)"
proof (induction tys arbitrary: i oc)
  case Nil
  then show ?case by simp
next
  case (Cons ty tys)
  from Cons.prems have total: "\<forall>k. uk_block_type k \<in> set tys \<longrightarrow> \<not> isl (gu k)"
    by simp
  note len = Cons.prems(2)
  note IH = Cons.IH [OF total len]
  let ?j = "nat (min (int i + 1) (int (length (block_out_channels c)) - 1))"
  show ?case
  proof (cases "i < length rboc \<and> i < length rtlpb \<and> i < length rahd")
    case False
    then show ?thesis by (auto simp: getitem_def Let_def)
  next
    case True
    then have j: "?j < length rboc" using len by auto
    let ?k = "\<lparr>
        uk_block_type = ty,
        uk_num_layers = layers_per_block c + 1,
        uk_transformer_layers_per_block = rtlpb ! i,
        uk_in_channels = rboc ! ?j,
        uk_out_channels = rboc ! i,
        uk_prev_output_channel = oc,
        uk_temb_channels = ted,
        uk_add_upsample = (\<not> int i = int (length (block_out_channels c)) - 1),
        uk_resnet_act_fn = act_fn c,
        uk_cross_attention_dim = cross_attention_dim c,
        uk_attn_num_head_channels = rahd ! i,
        uk_use_linear_projection = use_linear_projection c\<rparr>"
    from Cons.prems have "\<not> isl (gu ?k)" by simp
    from propagate_total [OF this] obtain b where b: "propagate (gu ?k) = Inr b"
      by blast
    have step: "up_blocks_loop c rboc rtlpb rahd ted gu i oc (ty # tys) =
       (case up_blocks_loop c rboc rtlpb rahd ted gu (Suc i) (rboc ! i) tys of
          Inl e \<Rightarrow> Inl e | Inr bs \<Rightarrow> Inr (b # bs))"
      using True j b by (simp add: getitem_def Let_def)
    show ?thesis
      unfolding step using True
      by (subst (1 2) IH) (cases "tys = []"; auto)
  qed
qed

lemma init_blocks_total:
  assumes gd: "\<forall>k. dk_block_type k \<in> set (down_block_types c) \<longrightarrow> \<not> isl (gd k)"
    and gm: "\<And>k. \<not> isl (gm k)"
    and gu: "\<forall>k. uk_block_type k \<in> set (up_block_types c) \<longrightarrow> \<not> isl (gu k)"
  shows "init_blocks c ted gd gm gu =
     (if subscripts_in_range c then Inr (projr (init_blocks c ted gd gm gu))
      else Inl IndexError)"
proof -
  let ?ahd = "broadcast (attention_head_dim c) (length (down_block_types c))"
  let ?tlpb = "broadcast (transformer_layers_per_block c) (length (down_block_types c))"
  let ?boc = "block_out_channels c"
  let ?mk = "\<lparr>
      mk_in_channels = last ?boc,
      mk_temb_channels = ted,
      mk_resnet_act_fn = act_fn c,
      mk_transformer_layers_per_block = last ?tlpb,
      mk_resnet_time_scale_shift = ''default'',
      mk_cross_attention_dim = cross_attention_dim c,
      mk_attn_num_head_channels = last ?ahd,
      mk_resnet_groups = norm_num_groups c,
      mk_use_linear_projection = use_linear_projection c\<rparr>"
  from propagate_total [OF gm [of ?mk]] obtain m where m: "propagate (gm ?mk) = Inr m"
    by blast
  let ?D = "down_blocks_loop c ?tlpb ?ahd ted gd 0 (?boc ! 0) (down_block_types c)"
  let ?U = "up_blocks_loop c (rev ?boc) (rev ?tlpb) (rev ?ahd) ted gu 0 (rev ?boc ! 0)
              (up_block_types c)"
  let ?dok = "down_block_types c = [] \<or>
      (length (down_block_types c) \<le> length ?boc \<and>
       length (down_block_types c) \<le> length ?tlpb \<and>
       length (down_block_types c) \<le> length ?ahd)"
  let ?uok = "up_block_types c = [] \<or>
      (length (up_block_types c) \<le> length ?boc \<and>
       length (up_block_types c) \<le> length ?tlpb \<and>
       length (up_block_types c) \<le> length ?ahd)"
  have d: "?D = (if ?dok then Inr (projr ?D) else Inl IndexError)"
    using down_blocks_loop_total [OF gd, of c ?tlpb ?ahd ted 0 "?boc ! 0"] by simp
  have u: "?U = (if ?uok then Inr (projr ?U) else Inl IndexError)"
    using up_blocks_loop_total [OF gu, of "rev ?boc" c "rev ?tlpb" "rev ?ahd" ted 0
        "rev ?boc ! 0"] by simp
  have dT: "\<exists>ds. ?D = Inr ds" if "?dok" using d that by (cases ?D) auto
  have dF: "?D = Inl IndexError" if "\<not> ?dok" using d that by (cases ?D) auto
  have uT: "\<exists>us. ?U = Inr us" if "?uok" using u that by (cases ?U) auto
  have uF: "?U = Inl IndexError" if "\<not> ?uok" using u that by (cases ?U) auto
  show ?thesis
  proof (cases "subscripts_in_range c")
    case True
    then have ne: "?boc \<noteq> []" "?tlpb \<noteq> []" "?ahd \<noteq> []" and "?dok" and "?uok"
      by (auto simp: subscripts_in_range_def Let_def)
    from dT [OF \<open>?dok\<close>] uT [OF \<open>?uok\<close>] obtain ds us where "?D = Inr ds" "?U = Inr us"
      by blast
    with ne m have "init_blocks c ted gd gm gu = Inr (ds, m, us)"
      by (simp add: init_blocks_def getitem_def getitem_last_def Let_def)
    with True show ?thesis by simp
  next
    case False
    have "init_blocks c ted gd gm gu = Inl IndexError"
    proof (cases "?boc \<noteq> [] \<and> ?dok")
      case no: False
      show ?thesis
      proof (cases "?boc = []")
        case True
        then show ?thesis by (simp add: init_blocks_def getitem_def Let_def)
      next
        case False
        with no have "\<not> ?dok" by blast
        from dF [OF this] False show ?thesis
          by (simp add: init_blocks_def getitem_def Let_def)
      qed
    next
      case yes: True
      then obtain ds where ds: "?D = Inr ds" using dT by blast
      show ?thesis
      proof (cases "?tlpb \<noteq> [] \<and> ?ahd \<noteq> []")
        case False
        with yes ds show ?thesis
          by (auto simp: init_blocks_def getitem_def getitem_last_def Let_def)
      next
        case True
        with yes \<open>\<not> subscripts_in_range c\<close> have "\<not> ?uok"
          by (auto simp: subscripts_in_range_def Let_def)
        from uF [OF this] yes ds True m show ?thesis
          by (simp add: init_blocks_def getitem_def getitem_last_def Let_def)
      qed
    qed
    with False show ?thesis by simp
  qed
qed


lemma init_blocks_recorded:
  assumes "init_blocks c ted Inr Inr Inr = Inr (dks, mk, uks)"
  shows "block_out_channels c \<noteq> []"
    and "down_blocks_loop c
           (broadcast (transformer_layers_per_block c) (length (down_block_types c)))
           (broadcast (attention_head_dim c) (length (down_block_types c)))
           ted Inr 0 (block_out_channels c ! 0) (down_block_types c) = Inr dks"
    and "up_blocks_loop c (rev (block_out_channels c))
           (rev (broadcast (transformer_layers_per_block c) (length (down_block_types c))))
           (rev (broadcast (attention_head_dim c) (length (down_block_types c))))
           ted Inr 0 (rev (block_out_channels c) ! 0) (up_block_types c) = Inr uks"
  using assms
  by (auto simp: init_blocks_def getitem_def getitem_last_def propagate_def Let_def
        split: sum.splits if_splits)

lemma small_kwargs_built: "init_blocks small_config 1280 Inr Inr Inr = Inr small_kwargs"
proof -
  have "\<not> isl (init_blocks small_config 1280 Inr Inr Inr)"
    by (simp add: sym_eval)
  then show ?thesis by (simp add: small_kwargs_def)
qed

subsection \<open>Down-sampling and up-sampling flags\<close>

text \<open>
  C7. In a well-formed configuration of \<open>N\<close> stages the constructor builds \<open>N\<close> down
  blocks and \<open>N\<close> up blocks, passes \<^verbatim>\<open>add_downsample=True\<close> to every down block but
  the last (index \<open>N - 1\<close>) and \<^verbatim>\<open>add_upsample=True\<close> to every up block but the last.
  The keyword arguments are read off a run of the constructor whose factories return
  what they are given; by \<open>init_blocks_factory\<close> every other factory is passed the same.
\<close>

theorem add_sample_flags:
  assumes "valid_config c" and "init_blocks c ted Inr Inr Inr = Inr (dks, mk, uks)"
  shows "length dks = length (block_out_channels c) \<and>
         length uks = length (block_out_channels c) \<and>
         (\<forall>i<length (block_out_channels c).
            dk_add_downsample (dks ! i) = (i \<noteq> length (block_out_channels c) - 1) \<and>
            uk_add_upsample (uks ! i) = (i \<noteq> length (block_out_channels c) - 1))"
proof -
  let ?N = "length (block_out_channels c)"
  from assms(1) have N: "length (down_block_types c) = ?N" "length (up_block_types c) = ?N"
    "0 < ?N"
    by (simp_all add: valid_config_def)
  note d = down_blocks_loop_kwargs [OF init_blocks_recorded(2) [OF assms(2)]]
  note u = up_blocks_loop_kwargs [OF init_blocks_recorded(3) [OF assms(2)]]
  have "dk_add_downsample (dks ! i) = (i \<noteq> ?N - 1)" if "i < ?N" for i
    using d that N by auto
  moreover have "uk_add_upsample (uks ! i) = (i \<noteq> ?N - 1)" if "i < ?N" for i
    using u that N by auto
  ultimately show ?thesis using d u N by simp
qed

theorem add_sample_flags_witness:
  "valid_config small_config \<and>
   map dk_add_downsample (fst small_kwargs) = [True, False] \<and>
   map uk_add_upsample (snd (snd small_kwargs)) = [True, False]"
proof -
  have v: "valid_config small_config"
    by (simp add: valid_config_def small_config_def broadcast_def)
  have k: "init_blocks small_config 1280 Inr Inr Inr =
      Inr (fst small_kwargs, fst (snd small_kwargs), snd (snd small_kwargs))"
    by (simp add: small_kwargs_built)
  have n: "length (block_out_channels small_config) = 2"
    by (simp add: small_config_def)
  from add_sample_flags [OF v k] have
    len: "length (fst small_kwargs) = 2" "length (snd (snd small_kwargs)) = 2"
    and flags: "\<forall>i<2. dk_add_downsample (fst small_kwargs ! i) = (i \<noteq> 1) \<and>
                      uk_add_upsample (snd (snd small_kwargs) ! i) = (i \<noteq> 1)"
    unfolding n by simp_all
  from flags have
    "dk_add_downsample (fst small_kwargs ! 0)" "\<not> dk_add_downsample (fst small_kwargs ! 1)"
    "uk_add_upsample (snd (snd small_kwargs) ! 0)"
    "\<not> uk_add_upsample (snd (snd small_kwargs) ! 1)"
    by auto
  with len have "map dk_add_downsample (fst small_kwargs) = [True, False]"
    and "map uk_add_upsample (snd (snd small_kwargs)) = [True, False]"
    by (auto simp: list_eq_iff_nth_eq less_Suc_eq numeral_2_eq_2)
  with v show ?thesis by simp
qed

subsection \<open>Scalar and per-stage hyperparameters\<close>

text \<open>
  C8. A scalar \<^verbatim>\<open>attention_head_dim\<close> or \<^verbatim>\<open>transformer_layers_per_block\<close> becomes a
  sequence with one entry per down block type, each equal to the scalar; a sequence is
  left as it is. Down block \<open>i\<close> is built with entry \<open>i\<close> of the sequence and up
  block \<open>i\<close> with entry \<open>i\<close> of the reversed sequence.
\<close>

theorem per_stage_broadcast:
  "broadcast (Scalar k) n = replicate n k \<and>
   broadcast (Sequence xs) n = xs \<and>
   (init_blocks c ted Inr Inr Inr = Inr (dks, mk, uks) \<longrightarrow>
      length dks = length (down_block_types c) \<and>
      length uks = length (up_block_types c) \<and>
      (\<forall>i<length dks.
         dk_attn_num_head_channels (dks ! i) =
           broadcast (attention_head_dim c) (length (down_block_types c)) ! i \<and>
         dk_transformer_layers_per_block (dks ! i) =
           broadcast (transformer_layers_per_block c) (length (down_block_types c)) ! i) \<and>
      (\<forall>i<length uks.
         uk_attn_num_head_channels (uks ! i) =
           rev (broadcast (attention_head_dim c) (length (down_block_types c))) ! i \<and>
         uk_transformer_layers_per_block (uks ! i) =
           rev (broadcast (transformer_layers_per_block c) (length (down_block_types c))) ! i))"
proof -
  have "length dks = length (down_block_types c) \<and>
      length uks = length (up_block_types c) \<and>
      (\<forall>i<length dks.
         dk_attn_num_head_channels (dks ! i) =
           broadcast (attention_head_dim c) (length (down_block_types c)) ! i \<and>
         dk_transformer_layers_per_block (dks ! i) =
           broadcast (transformer_layers_per_block c) (length (down_block_types c)) ! i) \<and>
      (\<forall>i<length uks.
         uk_attn_num_head_channels (uks ! i) =
           rev (broadcast (attention_head_dim c) (length (down_block_types c))) ! i \<and>
         uk_transformer_layers_per_block (uks ! i) =
           rev (broadcast (transformer_layers_per_block c) (length (down_block_types c))) ! i)"
    if r: "init_blocks c ted Inr Inr Inr = Inr (dks, mk, uks)"
  proof -
    note d = down_blocks_loop_kwargs [OF init_blocks_recorded(2) [OF r]]
    note u = up_blocks_loop_kwargs [OF init_blocks_recorded(3) [OF r]]
    from d u show ?thesis by simp
  qed
  then show ?thesis by (simp add: broadcast_def)
qed

theorem per_stage_broadcast_witness:
  "attention_head_dim small_config = Scalar 8 \<and>
   broadcast (Scalar 8) 2 = [8, 8] \<and>
   map dk_attn_num_head_channels (fst small_kwargs) = [8, 8] \<and>
   map uk_attn_num_head_channels (snd (snd small_kwargs)) = [8, 8]"
proof -
  have k: "init_blocks small_config 1280 Inr Inr Inr =
      Inr (fst small_kwargs, fst (snd small_kwargs), snd (snd small_kwargs))"
    by (simp add: small_kwargs_built)
  have c: "attention_head_dim small_config = Scalar 8"
    "length (down_block_types small_config) = 2" "length (up_block_types small_config) = 2"
    by (simp_all add: small_config_def)
  from per_stage_broadcast [of 8 2 "[]" small_config 1280 "fst small_kwargs"
      "fst (snd small_kwargs)" "snd (snd small_kwargs)"] k
  have b: "broadcast (Scalar 8) 2 = replicate 2 8"
    and len: "length (fst small_kwargs) = 2" "length (snd (snd small_kwargs)) = 2"
    and d: "\<forall>i<2. dk_attn_num_head_channels (fst small_kwargs ! i) = replicate 2 8 ! i"
    and u: "\<forall>i<2. uk_attn_num_head_channels (snd (snd small_kwargs) ! i)
                    = rev (replicate 2 8) ! i"
    by (simp_all add: c)
  from d u have
    "dk_attn_num_head_channels (fst small_kwargs ! 0) = 8"
    "dk_attn_num_head_channels (fst small_kwargs ! 1) = 8"
    "uk_attn_num_head_channels (snd (snd small_kwargs) ! 0) = 8"
    "uk_attn_num_head_channels (snd (snd small_kwargs) ! 1) = 8"
    by (simp_all add: numeral_2_eq_2)
  with len have "map dk_attn_num_head_channels (fst small_kwargs) = [8, 8]"
    and "map uk_attn_num_head_channels (snd (snd small_kwargs)) = [8, 8]"
    by (auto simp: list_eq_iff_nth_eq less_Suc_eq numeral_2_eq_2)
  with b c show ?thesis by (simp add: numeral_2_eq_2)
qed

subsection \<open>The channels of the up blocks\<close>

text \<open>
  C6, as the spec states it: the clamp on \<^verbatim>\<open>input_channel\<close> makes the first up stage
  reuse the last down stage's channel width. With channels \<open>(320, 640)\<close> the last down
  stage has 640 channels and the first up stage is built with \<^verbatim>\<open>in_channels=320\<close>.
\<close>

theorem up_channels_counterexample:
  "block_out_channels small_config = [320, 640] \<and>
   dk_out_channels (last (fst small_kwargs)) = 640 \<and>
   uk_in_channels (hd (snd (snd small_kwargs))) = 320 \<and>
   uk_in_channels (last (snd (snd small_kwargs))) = 320 \<and>
   dk_out_channels (hd (fst small_kwargs)) = 320"
  by (simp add: small_kwargs_def sym_eval)

text \<open>
  C6, amended: in a well-formed configuration of \<open>N\<close> stages, up stage \<open>i\<close> is built
  with \<^verbatim>\<open>prev_output_channel\<close> the previous up stage's output channel (for the first
  stage the last down stage's channel count), \<^verbatim>\<open>out_channels\<close> the reversed channel
  list at \<open>i\<close>, and \<^verbatim>\<open>in_channels\<close> the reversed channel list at \<open>min (i + 1) (N - 1)\<close>.
  The clamp acts at the last up stage, which reuses the first down stage's channel
  width.
\<close>

theorem up_channels:
  assumes "valid_config c" and "init_blocks c ted Inr Inr Inr = Inr (dks, mk, uks)"
  shows "length uks = length (block_out_channels c) \<and>
         (\<forall>i<length (block_out_channels c).
            uk_prev_output_channel (uks ! i) =
              (if i = 0 then last (block_out_channels c) else uk_out_channels (uks ! (i - 1))) \<and>
            uk_out_channels (uks ! i) = rev (block_out_channels c) ! i \<and>
            uk_in_channels (uks ! i) =
              rev (block_out_channels c) ! min (i + 1) (length (block_out_channels c) - 1)) \<and>
         uk_prev_output_channel (hd uks) = dk_out_channels (last dks) \<and>
         uk_in_channels (last uks) = dk_out_channels (hd dks)"
proof -
  let ?boc = "block_out_channels c"
  let ?N = "length ?boc"
  from assms(1) have N: "length (down_block_types c) = ?N" "length (up_block_types c) = ?N"
    "0 < ?N" "?boc \<noteq> []"
    by (simp_all add: valid_config_def)
  note d = down_blocks_loop_kwargs [OF init_blocks_recorded(2) [OF assms(2)]]
  note u = up_blocks_loop_kwargs [OF init_blocks_recorded(3) [OF assms(2)]]
  have len: "length uks = ?N" "length dks = ?N" using d u N by simp_all
  with N have ne: "uks \<noteq> []" "dks \<noteq> []" by auto
  have rev0: "rev ?boc ! 0 = last ?boc"
    using N by (simp add: rev_nth last_conv_nth)
  have out: "uk_out_channels (uks ! i) = rev ?boc ! i" if "i < ?N" for i
    using u that N by simp
  have inp: "uk_in_channels (uks ! i) = rev ?boc ! min (i + 1) (?N - 1)" if "i < ?N" for i
    using u that N by simp
  have prev: "uk_prev_output_channel (uks ! i) =
      (if i = 0 then last ?boc else uk_out_channels (uks ! (i - 1)))" if "i < ?N" for i
  proof (cases i)
    case 0
    then show ?thesis using u that N rev0 by simp
  next
    case (Suc j)
    with that have "j < ?N" by simp
    from out [OF this] u that N Suc show ?thesis by simp
  qed
  have first: "uk_prev_output_channel (hd uks) = dk_out_channels (last dks)"
  proof -
    have "uk_prev_output_channel (hd uks) = last ?boc"
      using prev [of 0] N len ne by (simp add: hd_conv_nth)
    moreover have "dk_out_channels (last dks) = ?boc ! (?N - 1)"
      using d N len ne by (simp add: last_conv_nth)
    ultimately show ?thesis using N by (simp add: last_conv_nth)
  qed
  have final: "uk_in_channels (last uks) = dk_out_channels (hd dks)"
  proof -
    have "uk_in_channels (last uks) = rev ?boc ! (?N - 1)"
      using inp [of "?N - 1"] N len ne by (simp add: last_conv_nth)
    moreover have "rev ?boc ! (?N - 1) = ?boc ! 0"
      using N by (simp add: rev_nth)
    moreover have "dk_out_channels (hd dks) = ?boc ! 0"
      using d N len ne by (simp add: hd_conv_nth)
    ultimately show ?thesis by simp
  qed
  from len out inp prev first final show ?thesis by simp
qed

theorem up_channels_witness:
  "valid_config small_config \<and>
   map uk_prev_output_channel (snd (snd small_kwargs)) = [640, 640] \<and>
   map uk_out_channels (snd (snd small_kwargs)) = [640, 320] \<and>
   map uk_in_channels (snd (snd small_kwargs)) = [320, 320]"
proof -
  have v: "valid_config small_config"
    by (simp add: valid_config_def small_config_def broadcast_def)
  have k: "init_blocks small_config 1280 Inr Inr Inr =
      Inr (fst small_kwargs, fst (snd small_kwargs), snd (snd small_kwargs))"
    by (simp add: small_kwargs_built)
  have c: "block_out_channels small_config = [320, 640]"
    by (simp add: small_config_def)
  let ?uks = "snd (snd small_kwargs)"
  from up_channels [OF v k] have len: "length ?uks = 2"
    and each: "\<forall>i<2.
        uk_prev_output_channel (?uks ! i) =
          (if i = 0 then 640 else uk_out_channels (?uks ! (i - 1))) \<and>
        uk_out_channels (?uks ! i) = [640, 320] ! i \<and>
        uk_in_channels (?uks ! i) = [640, 320] ! min (i + 1) 1"
    by (simp_all add: c)
  from each have "uk_out_channels (?uks ! 0) = 640" "uk_out_channels (?uks ! 1) = 320"
    "uk_in_channels (?uks ! 0) = 320" "uk_in_channels (?uks ! 1) = 320"
    "uk_prev_output_channel (?uks ! 0) = 640"
    "uk_prev_output_channel (?uks ! 1) = uk_out_channels (?uks ! 0)"
    by (simp_all add: numeral_2_eq_2)
  with len have "map uk_prev_output_channel ?uks = [640, 640]"
    "map uk_out_channels ?uks = [640, 320]" "map uk_in_channels ?uks = [320, 320]"
    by (auto simp: list_eq_iff_nth_eq less_Suc_eq numeral_2_eq_2)
  with v show ?thesis by simp
qed

subsection \<open>Lengths that disagree\<close>

lemma valid_config_in_range: "valid_config c \<Longrightarrow> subscripts_in_range c"
  by (auto simp: valid_config_def subscripts_in_range_def Let_def)

lemma init_isl:
  "isl (init L c) \<longleftrightarrow>
     block_out_channels c = [] \<or>
     isl (init_blocks c (block_out_channels c ! 0 * 4) (lib_get_down_block L)
            (lib_UNetMidBlock2DCrossAttn L) (lib_get_up_block L))"
  by (auto simp: init_def getitem_def Let_def split: sum.splits)

lemma init_Inl:
  "init L c = Inl e \<longleftrightarrow>
     (block_out_channels c = [] \<and> e = IndexError) \<or>
     (block_out_channels c \<noteq> [] \<and>
      init_blocks c (block_out_channels c ! 0 * 4) (lib_get_down_block L)
        (lib_UNetMidBlock2DCrossAttn L) (lib_get_up_block L) = Inl e)"
  by (auto simp: init_def getitem_def Let_def split: sum.splits)

text \<open>
  C2, as the spec states it: a per-stage sequence whose length differs from the number
  of down stages, or \<^verbatim>\<open>up_block_types\<close> of another length than \<^verbatim>\<open>down_block_types\<close>,
  makes construction fail. The constructor accepts three attention head counts for two
  stages, and one up block type for two down block types.
\<close>

theorem init_length_counterexample:
  "attention_head_dim long_heads_config = Sequence [5, 10, 20] \<and>
   length (down_block_types long_heads_config) = 2 \<and>
   \<not> isl (init sym_library long_heads_config) \<and>
   length (up_block_types short_up_config) = 1 \<and>
   length (down_block_types short_up_config) = 2 \<and>
   \<not> isl (init sym_library short_up_config)"
  by (simp add: long_heads_config_def short_up_config_def sym_eval)

text \<open>
  C2, amended: \<^verbatim>\<open>__init__\<close> does not compare lengths. With factories that accept the
  block types of the configuration, it fails exactly when one of its subscripts is out
  of range, and then with the IndexError of that subscript: when \<^verbatim>\<open>block_out_channels\<close>
  or a per-stage sequence (after broadcasting) is empty, or shorter than
  \<^verbatim>\<open>down_block_types\<close> or than \<^verbatim>\<open>up_block_types\<close>. A longer sequence and a shorter
  \<^verbatim>\<open>up_block_types\<close> are accepted. A well-formed configuration constructs without
  error.
\<close>

theorem init_subscripts:
  assumes "\<forall>k. dk_block_type k \<in> set (down_block_types c) \<longrightarrow> \<not> isl (lib_get_down_block L k)"
    and "\<forall>k. \<not> isl (lib_UNetMidBlock2DCrossAttn L k)"
    and "\<forall>k. uk_block_type k \<in> set (up_block_types c) \<longrightarrow> \<not> isl (lib_get_up_block L k)"
  shows "(isl (init L c) \<longleftrightarrow> \<not> subscripts_in_range c) \<and>
         (\<not> subscripts_in_range c \<longrightarrow> init L c = Inl IndexError) \<and>
         (valid_config c \<longrightarrow> \<not> isl (init L c))"
proof -
  let ?ted = "block_out_channels c ! 0 * 4"
  have gm: "\<not> isl (lib_UNetMidBlock2DCrossAttn L k)" for k using assms(2) by simp
  note b = init_blocks_total [OF assms(1) gm assms(3), of ?ted]
  have no: "init L c = Inl IndexError" if "\<not> subscripts_in_range c"
  proof (cases "block_out_channels c = []")
    case True
    then show ?thesis by (simp add: init_Inl)
  next
    case False
    from b that have "init_blocks c ?ted (lib_get_down_block L)
        (lib_UNetMidBlock2DCrossAttn L) (lib_get_up_block L) = Inl IndexError"
      by simp
    with False show ?thesis by (simp add: init_Inl)
  qed
  have yes: "\<not> isl (init L c)" if r: "subscripts_in_range c"
  proof -
    from r have ne: "block_out_channels c \<noteq> []"
      by (simp add: subscripts_in_range_def Let_def)
    from arg_cong [OF b, of isl] r have "\<not> isl (init_blocks c ?ted (lib_get_down_block L)
        (lib_UNetMidBlock2DCrossAttn L) (lib_get_up_block L))"
      by simp
    with ne show ?thesis by (simp add: init_isl)
  qed
  from no yes valid_config_in_range [of c] show ?thesis by auto
qed

theorem init_subscripts_witness:
  "valid_config small_config \<and> \<not> isl (init sym_library small_config) \<and>
   \<not> subscripts_in_range short_heads_config \<and>
   init sym_library short_heads_config = Inl IndexError"
proof -
  have v: "valid_config small_config"
    by (simp add: valid_config_def small_config_def broadcast_def)
  have s: "\<not> subscripts_in_range short_heads_config"
    by (simp add: subscripts_in_range_def short_heads_config_def small_config_def
          broadcast_def)
  have gd: "\<forall>k. dk_block_type k \<in> set (down_block_types small_config) \<longrightarrow>
      \<not> isl (lib_get_down_block sym_library k)"
    by (auto simp: small_config_def sym_library_def sym_get_down_block_def)
  have gd': "\<forall>k. dk_block_type k \<in> set (down_block_types short_heads_config) \<longrightarrow>
      \<not> isl (lib_get_down_block sym_library k)"
    by (auto simp: short_heads_config_def small_config_def sym_library_def
          sym_get_down_block_def)
  have gm: "\<forall>k. \<not> isl (lib_UNetMidBlock2DCrossAttn sym_library k)"
    by (simp add: sym_library_def)
  have gu: "\<forall>k. uk_block_type k \<in> set (up_block_types small_config) \<longrightarrow>
      \<not> isl (lib_get_up_block sym_library k)"
    by (auto simp: small_config_def sym_library_def sym_get_up_block_def)
  have gu': "\<forall>k. uk_block_type k \<in> set (up_block_types short_heads_config) \<longrightarrow>
      \<not> isl (lib_get_up_block sym_library k)"
    by (auto simp: short_heads_config_def small_config_def sym_library_def
          sym_get_up_block_def)
  have 1: "\<not> isl (init sym_library small_config)"
    using init_subscripts [OF gd gm gu] v by blast
  have 2: "init sym_library short_heads_config = Inl IndexError"
    using init_subscripts [OF gd' gm gu'] s by blast
  from v s 1 2 show ?thesis by simp
qed

subsection \<open>The bottom of the skip stack\<close>




subsection \<open>The skip stack is balanced\<close>

lemma length_sym_resnets: "length (sym_resnets n h) = n"
  by (induction n arbitrary: h) simp_all

lemma sym_skip_contract: "skip_contract sym_get_down_block sym_get_up_block"
  unfolding skip_contract_def
proof (intro conjI allI impI)
  fix k b h t e s rs
  assume "sym_get_down_block k = Inr b" and "db_call b h t e = Inr (s, rs)"
  then have "\<exists>out. rs = sym_resnets (nat (dk_num_layers k)) h @
      (if dk_add_downsample k then [out] else [])"
    by (auto simp: sym_get_down_block_def Let_def split: if_splits)
  then show "length rs = nat (dk_num_layers k) + (if dk_add_downsample k then 1 else 0)"
    by (auto simp: length_sym_resnets)
next
  fix k b
  assume "sym_get_up_block k = Inr b"
  then show "ub_resnets b = nat (uk_num_layers k)"
    by (auto simp: sym_get_up_block_def split: if_splits)
qed

lemma down_path_length:
  "list_all2 (\<lambda>b n. \<forall>h t e s rs. db_call b h t e = Inr (s, rs) \<longrightarrow> length rs = n) bs ns \<Longrightarrow>
   down_path bs emb enc (s0, st) = Inr (s', st') \<Longrightarrow>
   length st' = length st + sum_list ns"
proof (induction bs ns arbitrary: s0 st rule: list_all2_induct)
  case Nil
  then show ?case by simp
next
  case (Cons b bs n ns)
  from Cons.prems obtain s1 rs where
    call: "db_call b s0 emb (if db_attentions b then Some enc else None) = Inr (s1, rs)"
    and rest: "down_path bs emb enc (s1, st @ rs) = Inr (s', st')"
    by (auto simp: propagate_def split: sum.splits)
  from Cons.hyps(1) call have "length rs = n" by blast
  with Cons.IH [OF rest] show ?case by simp
qed

lemma sum_downsample_flags:
  "n \<le> N \<Longrightarrow>
   sum_list (map (\<lambda>j. a + (if Suc j \<noteq> N then 1 else 0)) [0..<n]) =
     n * a + (if n = N \<and> 0 < N then n - 1 else (n::nat))"
proof (induction n)
  case 0
  then show ?case by simp
next
  case (Suc n)
  then show ?case by (auto simp: algebra_simps)
qed


lemma init_blocks_of_init:
  "init L c = Inr m \<Longrightarrow>
   init_blocks c (block_out_channels c ! 0 * 4) (lib_get_down_block L)
     (lib_UNetMidBlock2DCrossAttn L) (lib_get_up_block L) =
     Inr (self_down_blocks m, self_mid_block m, self_up_blocks m)"
  by (auto simp: init_def getitem_def Let_def split: sum.splits if_splits)

lemma map_factory_nth:
  "map g ks = map Inr bs \<Longrightarrow> j < length ks \<Longrightarrow> g (ks ! j) = Inr (bs ! j)"
proof -
  assume eq: "map g ks = map Inr bs" and j: "j < length ks"
  from eq have len: "length ks = length bs" by (metis length_map)
  have "g (ks ! j) = map g ks ! j" using j by simp
  also have "\<dots> = map Inr bs ! j" by (simp only: eq)
  also have "\<dots> = Inr (bs ! j)" using j len by simp
  finally show ?thesis .
qed

lemma built_blocks_counts:
  assumes valid: "valid_config c"
    and contract: "skip_contract gd gu"
    and built: "init_blocks c ted gd gm gu = Inr (ds, mb, us)"
  shows "list_all2 (\<lambda>b n. \<forall>h t e s rs. db_call b h t e = Inr (s, rs) \<longrightarrow> length rs = n) ds
           (map (\<lambda>j. nat (layers_per_block c) +
                      (if Suc j \<noteq> length (block_out_channels c) then 1 else 0))
              [0..<length (block_out_channels c)])"
    and "map ub_resnets us =
           replicate (length (block_out_channels c)) (nat (layers_per_block c) + 1)"
proof -
  let ?N = "length (block_out_channels c)"
  from valid have N: "length (down_block_types c) = ?N" "length (up_block_types c) = ?N"
    and L: "0 \<le> layers_per_block c"
    by (simp_all add: valid_config_def)
  from init_blocks_factory [OF built] obtain dks mk uks where
    rec: "init_blocks c ted Inr Inr Inr = Inr (dks, mk, uks)"
    and gd: "map gd dks = map Inr ds" and gu: "map gu uks = map Inr us"
    by blast
  note d = down_blocks_loop_kwargs [OF init_blocks_recorded(2) [OF rec]]
  note u = up_blocks_loop_kwargs [OF init_blocks_recorded(3) [OF rec]]
  have ld: "length dks = ?N" and lu: "length uks = ?N" using d u N by simp_all
  from gd gu have lds: "length ds = ?N" and lus: "length us = ?N"
    using ld lu by (metis length_map)+
  have down: "length rs = nat (layers_per_block c) + (if Suc j \<noteq> ?N then 1 else 0)"
    if j: "j < ?N" and call: "db_call (ds ! j) h t e = Inr (s, rs)" for j h t e s rs
  proof -
    from map_factory_nth [OF gd] j ld have b: "gd (dks ! j) = Inr (ds ! j)" by simp
    from contract b call have
      "length rs = nat (dk_num_layers (dks ! j)) + (if dk_add_downsample (dks ! j) then 1 else 0)"
      unfolding skip_contract_def by blast
    moreover from d j N have "dk_num_layers (dks ! j) = layers_per_block c"
      and "dk_add_downsample (dks ! j) = (Suc j \<noteq> ?N)"
      by simp_all
    ultimately show ?thesis by simp
  qed
  show "list_all2 (\<lambda>b n. \<forall>h t e s rs. db_call b h t e = Inr (s, rs) \<longrightarrow> length rs = n) ds
           (map (\<lambda>j. nat (layers_per_block c) + (if Suc j \<noteq> ?N then 1 else 0)) [0..<?N])"
    unfolding list_all2_conv_all_nth using lds down by auto
  have up: "ub_resnets (us ! j) = nat (layers_per_block c) + 1" if j: "j < ?N" for j
  proof -
    from map_factory_nth [OF gu] j lu have b: "gu (uks ! j) = Inr (us ! j)" by simp
    from contract b have "ub_resnets (us ! j) = nat (uk_num_layers (uks ! j))"
      unfolding skip_contract_def by blast
    moreover from u j N have "uk_num_layers (uks ! j) = layers_per_block c + 1" by simp
    ultimately show ?thesis using L by (simp add: nat_add_distrib)
  qed
  show "map ub_resnets us = replicate ?N (nat (layers_per_block c) + 1)"
    using lus up by (auto simp: list_eq_iff_nth_eq)
qed

lemma skip_segments_partition:
  "sum_list ns = length st \<Longrightarrow>
   list_all2 (\<lambda>n seg. length seg = n) ns (skip_segments ns st) \<and>
   concat (rev (skip_segments ns st)) = st"
proof (induction ns arbitrary: st)
  case Nil
  then show ?case by simp
next
  case (Cons n ns)
  from Cons.prems have "sum_list ns = length (take (length st - n) st)" by simp
  from Cons.IH [OF this] Cons.prems show ?case by simp
qed

lemma up_path_segments:
  "list_all (\<lambda>b. 0 < ub_resnets b) bs \<Longrightarrow> length st = sum_list (map ub_resnets bs) \<Longrightarrow>
   up_path bs emb enc (s, st) =
     (case up_stages bs (skip_segments (map ub_resnets bs) st) emb enc s of
        Inl e \<Rightarrow> Inl e
      | Inr out \<Rightarrow> Inr (out, []))"
proof (induction bs arbitrary: s st)
  case Nil
  then show ?case by simp
next
  case (Cons b bs)
  let ?n = "ub_resnets b"
  from Cons.prems have pos: "0 < ?n" and all: "list_all (\<lambda>b. 0 < ub_resnets b) bs"
    and len: "length (take (length st - ?n) st) = sum_list (map ub_resnets bs)"
    by simp_all
  have slices: "slice_last ?n st = drop (length st - ?n) st"
    "slice_butlast ?n st = take (length st - ?n) st"
    using pos by (simp_all add: slice_last_def slice_butlast_def)
  show ?case
    by (simp add: slices Let_def Cons.IH [OF all len] split: sum.splits)
qed

text \<open>
  C3. For a well-formed configuration, and blocks that keep \<open>skip_contract\<close>, the down
  path of a call leaves on the skip stack exactly as many tensors as the resnet counts of
  the up blocks add up to. The up path consumes them all: it calls each up stage's block
  with that stage's segment of the stack, the segments have the stages' resnet counts of
  tensors and, put back in reverse order of the stages, are the whole stack; and the
  stack is empty when the up path ends. (The stack holds \<open>N * (layers_per_block + 1)\<close>
  tensors: the output of the input convolution, \<open>layers_per_block\<close> per down block, and
  one more for each down block but the last.)
\<close>

theorem skip_stack_balance:
  assumes "valid_config c"
    and "skip_contract (lib_get_down_block L) (lib_get_up_block L)"
    and "init L c = Inr m"
  shows "forward_skip F m sample timesteps enc text_embeds time_ids =
           (case forward_down F m sample timesteps enc text_embeds time_ids of
              Inl e \<Rightarrow> Inl e
            | Inr (emb, s, st) \<Rightarrow>
                (case propagate (self_mid_block m s emb enc) of
                   Inl e \<Rightarrow> Inl e
                 | Inr s2 \<Rightarrow>
                     (case up_stages (self_up_blocks m)
                             (skip_segments (map ub_resnets (self_up_blocks m)) st)
                             emb enc s2 of
                        Inl e \<Rightarrow> Inl e
                      | Inr out \<Rightarrow> Inr (out, [])))) \<and>
         (forward_down F m sample timesteps enc text_embeds time_ids = Inr (emb, s, st) \<longrightarrow>
            length st = sum_list (map ub_resnets (self_up_blocks m)) \<and>
            list_all2 (\<lambda>b seg. length seg = ub_resnets b) (self_up_blocks m)
              (skip_segments (map ub_resnets (self_up_blocks m)) st) \<and>
            concat (rev (skip_segments (map ub_resnets (self_up_blocks m)) st)) = st) \<and>
         (forward_skip F m sample timesteps enc text_embeds time_ids = Inr (out, rest) \<longrightarrow>
            rest = [])"
proof -
  let ?N = "length (block_out_channels c)"
  let ?a = "nat (layers_per_block c)"
  let ?ups = "self_up_blocks m"
  from assms(1) have N: "0 < ?N" by (simp add: valid_config_def)
  note counts = built_blocks_counts [OF assms(1,2) init_blocks_of_init [OF assms(3)]]
  have ups: "sum_list (map ub_resnets ?ups) = ?N * (?a + 1)"
    by (simp add: counts(2) sum_list_replicate)
  have pos: "list_all (\<lambda>b. 0 < ub_resnets b) ?ups"
  proof -
    have "\<forall>n \<in> set (map ub_resnets ?ups). 0 < n"
      unfolding counts(2) by simp
    then show ?thesis by (simp add: list_all_iff)
  qed
  have produced: "length st' = sum_list (map ub_resnets ?ups)"
    if "forward_down F m sample timesteps enc text_embeds time_ids = Inr (emb', s', st')"
    for emb' s' st'
  proof -
    from that have "down_path (self_down_blocks m) emb' enc
        (self_conv_in m sample, [self_conv_in m sample]) = Inr (s', st')"
      by (auto simp: forward_down_def Let_def split: sum.splits)
    from down_path_length [OF counts(1) this]
    have "length st' = 1 + (?N * ?a + (?N - 1))"
      by (simp add: sum_downsample_flags N)
    with N ups show ?thesis by (simp add: algebra_simps)
  qed
  have stages: "up_path ?ups emb' enc (s2, st') =
      (case up_stages ?ups (skip_segments (map ub_resnets ?ups) st') emb' enc s2 of
         Inl e \<Rightarrow> Inl e
       | Inr out \<Rightarrow> Inr (out, []))"
    if "forward_down F m sample timesteps enc text_embeds time_ids = Inr (emb', s', st')"
    for emb' s' st' s2
    by (rule up_path_segments [OF pos produced [OF that]])
  have 1: "forward_skip F m sample timesteps enc text_embeds time_ids =
           (case forward_down F m sample timesteps enc text_embeds time_ids of
              Inl e \<Rightarrow> Inl e
            | Inr (emb, s, st) \<Rightarrow>
                (case propagate (self_mid_block m s emb enc) of
                   Inl e \<Rightarrow> Inl e
                 | Inr s2 \<Rightarrow>
                     (case up_stages ?ups (skip_segments (map ub_resnets ?ups) st)
                             emb enc s2 of
                        Inl e \<Rightarrow> Inl e
                      | Inr out \<Rightarrow> Inr (out, []))))"
  proof (cases "forward_down F m sample timesteps enc text_embeds time_ids")
    case (Inl e)
    then show ?thesis by (simp add: forward_skip_def)
  next
    case (Inr r)
    obtain emb' s' st' where r: "r = (emb', s', st')" by (cases r)
    from Inr r stages [of emb' s' st'] show ?thesis
      by (simp add: forward_skip_def split: sum.splits)
  qed
  have 2: "length st = sum_list (map ub_resnets ?ups) \<and>
      list_all2 (\<lambda>b seg. length seg = ub_resnets b) ?ups
        (skip_segments (map ub_resnets ?ups) st) \<and>
      concat (rev (skip_segments (map ub_resnets ?ups) st)) = st"
    if d: "forward_down F m sample timesteps enc text_embeds time_ids = Inr (emb, s, st)"
  proof -
    note len = produced [OF d]
    from skip_segments_partition [of "map ub_resnets ?ups" st] len
    show ?thesis by (simp add: list_all2_map1)
  qed
  have 3: "rest = []"
    if "forward_skip F m sample timesteps enc text_embeds time_ids = Inr (out, rest)"
    using that unfolding 1 by (auto split: sum.splits)
  from 1 2 3 show ?thesis by blast
qed

theorem skip_stack_balance_witness:
  "valid_config small_config \<and>
   forward_down sym_functional small_unet (Input ''x'') (Input ''t'') (Input ''e'') None None =
     Inr (Op ''embedding'' [Op ''timesteps'' [Input ''t'']],
          Op ''resnet'' [Op ''downsample'' [Op ''resnet'' [Op ''conv'' [Input ''x'']]]],
          [Op ''conv'' [Input ''x''],
           Op ''resnet'' [Op ''conv'' [Input ''x'']],
           Op ''downsample'' [Op ''resnet'' [Op ''conv'' [Input ''x'']]],
           Op ''resnet'' [Op ''downsample'' [Op ''resnet'' [Op ''conv'' [Input ''x'']]]]]) \<and>
   map ub_resnets (self_up_blocks small_unet) = [2, 2] \<and>
   skip_segments [2, 2]
     [Op ''conv'' [Input ''x''],
      Op ''resnet'' [Op ''conv'' [Input ''x'']],
      Op ''downsample'' [Op ''resnet'' [Op ''conv'' [Input ''x'']]],
      Op ''resnet'' [Op ''downsample'' [Op ''resnet'' [Op ''conv'' [Input ''x'']]]]] =
     [[Op ''downsample'' [Op ''resnet'' [Op ''conv'' [Input ''x'']]],
       Op ''resnet'' [Op ''downsample'' [Op ''resnet'' [Op ''conv'' [Input ''x'']]]]],
      [Op ''conv'' [Input ''x''], Op ''resnet'' [Op ''conv'' [Input ''x'']]]] \<and>
   forward_skip sym_functional small_unet (Input ''x'') (Input ''t'') (Input ''e'')
     None None =
     Inr (Op ''CrossAttnUpBlock2D''
            [Op ''UpBlock2D''
               [Op ''mid'' [Op ''resnet'' [Op ''downsample''
                  [Op ''resnet'' [Op ''conv'' [Input ''x'']]]]],
                Op ''downsample'' [Op ''resnet'' [Op ''conv'' [Input ''x'']]],
                Op ''resnet'' [Op ''downsample'' [Op ''resnet'' [Op ''conv'' [Input ''x'']]]]],
             Op ''conv'' [Input ''x''],
             Op ''resnet'' [Op ''conv'' [Input ''x'']]],
          [])"
proof -
  let ?st = "[Op ''conv'' [Input ''x''],
           Op ''resnet'' [Op ''conv'' [Input ''x'']],
           Op ''downsample'' [Op ''resnet'' [Op ''conv'' [Input ''x'']]],
           Op ''resnet'' [Op ''downsample'' [Op ''resnet'' [Op ''conv'' [Input ''x'']]]]]"
  let ?out = "Op ''CrossAttnUpBlock2D''
            [Op ''UpBlock2D''
               [Op ''mid'' [Op ''resnet'' [Op ''downsample''
                  [Op ''resnet'' [Op ''conv'' [Input ''x'']]]]],
                Op ''downsample'' [Op ''resnet'' [Op ''conv'' [Input ''x'']]],
                Op ''resnet'' [Op ''downsample'' [Op ''resnet'' [Op ''conv'' [Input ''x'']]]]],
             Op ''conv'' [Input ''x''],
             Op ''resnet'' [Op ''conv'' [Input ''x'']]]"
  have v: "valid_config small_config"
    by (simp add: valid_config_def small_config_def broadcast_def)
  have c: "skip_contract (lib_get_down_block sym_library) (lib_get_up_block sym_library)"
    using sym_skip_contract by (simp add: sym_library_def)
  have d: "forward_down sym_functional small_unet (Input ''x'') (Input ''t'') (Input ''e'')
      None None =
     Inr (Op ''embedding'' [Op ''timesteps'' [Input ''t'']],
          Op ''resnet'' [Op ''downsample'' [Op ''resnet'' [Op ''conv'' [Input ''x'']]]], ?st)"
    by (simp add: small_unet_def sym_eval)
  have n: "map ub_resnets (self_up_blocks small_unet) = [2, 2]"
    by (simp add: small_unet_def sym_eval)
  have g: "skip_segments [2, 2] ?st = [drop 2 ?st, take 2 ?st]"
    by (simp add: numeral_2_eq_2)
  have u: "forward_skip sym_functional small_unet (Input ''x'') (Input ''t'') (Input ''e'')
      None None = Inr (?out, [])"
    by (simp add: small_unet_def sym_eval)
  note t = skip_stack_balance [OF v c small_unet_built, of sym_functional "Input ''x''"
      "Input ''t''" "Input ''e''" None None
      "Op ''embedding'' [Op ''timesteps'' [Input ''t'']]"
      "Op ''resnet'' [Op ''downsample'' [Op ''resnet'' [Op ''conv'' [Input ''x'']]]]"
      ?st ?out "[]"]
  from t d have "length ?st = sum_list (map ub_resnets (self_up_blocks small_unet))"
    by blast
  with v d n g u show ?thesis by (simp add: numeral_2_eq_2)
qed

end
